theory Spec2Isabelle
  imports Main
begin

section \<open>The LMC assembler of \<^verbatim>\<open>assembler.py\<close>\<close>

text \<open>
  A shallow embedding of the class \<^verbatim>\<open>LMCAssembler\<close>: the line parser, the operand
  parser, the two passes and the emitter of the C program.

  Python strings are modelled as \<^typ>\<open>string\<close>, one \<^typ>\<open>char\<close> per code point, so the
  model covers source text whose code points are below 256. Python integers are
  \<^typ>\<open>int\<close>; addresses and line numbers, which only count upwards from 0, are
  \<^typ>\<open>nat\<close>. An exception is a value \<open>Inl e\<close> of a sum type.
\<close>

subsection \<open>Exceptions\<close>

text \<open>
  The four subclasses of \<^verbatim>\<open>AssemblyError\<close> carry the line number that the code
  formats into the message. \<open>IndexError\<close> and \<open>ValueError\<close> are the built-in
  exceptions that the code does not catch: a list assignment out of range, and
  \<^verbatim>\<open>int()\<close> on a malformed string outside \<^verbatim>\<open>parse_operand\<close>.
\<close>

datatype error =
    InvalidInstructionError nat
  | DuplicateLabelError nat
  | OperandRangeError nat
  | InvalidOperandError nat
  | IndexError
  | ValueError

fun is_AssemblyError :: "error \<Rightarrow> bool" where
  "is_AssemblyError (InvalidInstructionError n) = True"
| "is_AssemblyError (DuplicateLabelError n) = True"
| "is_AssemblyError (OperandRangeError n) = True"
| "is_AssemblyError (InvalidOperandError n) = True"
| "is_AssemblyError IndexError = False"
| "is_AssemblyError ValueError = False"

subsection \<open>Python's string and integer built-ins\<close>

text \<open>
  The white space of \<^verbatim>\<open>str.strip()\<close> and of the pattern \<^verbatim>\<open>\s\<close>: the code points
  below 256 for which \<^verbatim>\<open>str.isspace()\<close> holds.
\<close>

definition isspace :: "char \<Rightarrow> bool" where
  "isspace c \<longleftrightarrow> c \<in> set [CHR 0x09, CHR 0x0A, CHR 0x0B, CHR 0x0C, CHR 0x0D,
     CHR 0x1C, CHR 0x1D, CHR 0x1E, CHR 0x1F, CHR 0x20, CHR 0x85, CHR 0xA0]"

text \<open>\<^verbatim>\<open>s.strip()\<close>\<close>

definition strip :: "string \<Rightarrow> string" where
  "strip s = rev (dropWhile isspace (rev (dropWhile isspace s)))"

text \<open>
  \<^verbatim>\<open>re.sub(r'//.*', '', line)\<close>: every \<^verbatim>\<open>//\<close> is deleted together with what follows it
  up to, and not including, the next newline (\<^verbatim>\<open>.\<close> matches every character except
  the newline), and the scan goes on after it.
\<close>

function sub_comment :: "string \<Rightarrow> string" where
  "sub_comment (c # d # cs) =
     (if c = CHR ''/'' \<and> d = CHR ''/''
      then sub_comment (dropWhile (\<lambda>x. x \<noteq> CHR 0x0A) cs)
      else c # sub_comment (d # cs))"
| "sub_comment [c] = [c]"
| "sub_comment [] = []"
  by pat_completeness auto
termination
proof (relation "measure length")
  fix c d :: char and cs :: string
  show "(dropWhile (\<lambda>x. x \<noteq> CHR 0x0A) cs, c # d # cs) \<in> measure length"
    using length_dropWhile_le [of "\<lambda>x. x \<noteq> CHR 0x0A" cs] by simp
qed simp_all

text \<open>
  \<^verbatim>\<open>re.split(r'\s+', line)\<close>: the pieces between the maximal runs of white space; a run
  at either end leaves an empty piece there, and the empty string gives one empty piece.
\<close>

function split_ws :: "string \<Rightarrow> string list" where
  "split_ws s =
     (case dropWhile (\<lambda>c. \<not> isspace c) s of
        [] \<Rightarrow> [s]
      | r # rest \<Rightarrow> takeWhile (\<lambda>c. \<not> isspace c) s # split_ws (dropWhile isspace rest))"
  by pat_completeness auto
termination
proof (relation "measure length")
  fix s r rest
  assume a: "dropWhile (\<lambda>c. \<not> isspace c) s = r # rest"
  have "length (dropWhile isspace rest) \<le> length rest"
    by (rule length_dropWhile_le)
  moreover have "length (r # rest) \<le> length s"
    using length_dropWhile_le [of "\<lambda>c. \<not> isspace c" s] a by simp
  ultimately show "(dropWhile isspace rest, s) \<in> measure length"
    by simp
qed simp

declare split_ws.simps [simp del]

text \<open>
  \<^verbatim>\<open>s.upper()\<close>, one character at a time. Below 256 the letters \<^verbatim>\<open>a\<close> to \<^verbatim>\<open>z\<close> and
  the code points 224 to 254 other than 247 move down by 32, and 223 becomes \<^verbatim>\<open>SS\<close>.
  The upper-case forms of 181 and 255 lie beyond 255; they are left as they are, which
  no comparison of the program can tell from Python's result, since neither is a
  letter of a mnemonic.
\<close>

definition upper_char :: "char \<Rightarrow> string" where
  "upper_char c =
     (let n = (of_char c :: nat) in
      if 97 \<le> n \<and> n \<le> 122 then [char_of (n - 32)]
      else if 224 \<le> n \<and> n \<le> 254 \<and> n \<noteq> 247 then [char_of (n - 32)]
      else if n = 223 then ''SS''
      else [c])"

definition upper :: "string \<Rightarrow> string" where
  "upper s = concat (map upper_char s)"

text \<open>\<^verbatim>\<open>s.startswith(p)\<close> and \<^verbatim>\<open>s.endswith(':')\<close>\<close>

definition startswith :: "string \<Rightarrow> string \<Rightarrow> bool" where
  "startswith s p \<longleftrightarrow> take (length p) s = p"

definition endswith_colon :: "string \<Rightarrow> bool" where
  "endswith_colon s \<longleftrightarrow> s \<noteq> [] \<and> last s = CHR '':''"

text \<open>
  \<^verbatim>\<open>int(s, base)\<close> for the bases 2, 10 and 16, after CPython's \<^verbatim>\<open>PyLong_FromString\<close>.
  White space around the number is skipped (for \<^verbatim>\<open>int\<close> the separators 28 to 31 are
  not white space), then one sign is read, then the prefix \<^verbatim>\<open>0x\<close> or \<^verbatim>\<open>0b\<close> of the
  base with at most one underscore after it, then the digits, where single underscores
  may stand between two digits. \<open>None\<close> is \<^verbatim>\<open>ValueError\<close>. The limit that recent
  interpreters put on the length of a decimal string is a setting of the interpreter
  and is not modelled.
\<close>

definition int_space :: "char \<Rightarrow> bool" where
  "int_space c \<longleftrightarrow> c \<in> set [CHR 0x09, CHR 0x0A, CHR 0x0B, CHR 0x0C, CHR 0x0D,
     CHR 0x20, CHR 0x85, CHR 0xA0]"

definition digit_value :: "char \<Rightarrow> nat" where
  "digit_value c =
     (let n = (of_char c :: nat) in
      if 48 \<le> n \<and> n \<le> 57 then n - 48
      else if 97 \<le> n \<and> n \<le> 122 then n - 87
      else if 65 \<le> n \<and> n \<le> 90 then n - 55
      else 37)"

text \<open>
  The scan over digits and underscores: the digits read and the text left over, or
  \<open>None\<close> for two underscores in a row or an underscore that ends the digits. The flag
  says that the previous character was an underscore.
\<close>

fun scan_digits :: "nat \<Rightarrow> bool \<Rightarrow> string \<Rightarrow> (nat list \<times> string) option" where
  "scan_digits base prev_us [] = (if prev_us then None else Some ([], []))"
| "scan_digits base prev_us (c # cs) =
     (if c = CHR ''_'' then (if prev_us then None else scan_digits base True cs)
      else if digit_value c < base then
        (case scan_digits base False cs of
           None \<Rightarrow> None
         | Some (ds, rest) \<Rightarrow> Some (digit_value c # ds, rest))
      else if prev_us then None
      else Some ([], c # cs))"

definition has_base_prefix :: "nat \<Rightarrow> string \<Rightarrow> bool" where
  "has_base_prefix base s =
     (case s of
        c # d # _ \<Rightarrow> c = CHR ''0'' \<and>
          (base = 16 \<and> (d = CHR ''x'' \<or> d = CHR ''X'') \<or>
           base = 2 \<and> (d = CHR ''b'' \<or> d = CHR ''B''))
      | _ \<Rightarrow> False)"

definition digits_value :: "nat \<Rightarrow> nat list \<Rightarrow> nat" where
  "digits_value base ds = foldl (\<lambda>a d. a * base + d) 0 ds"

definition py_int :: "string \<Rightarrow> nat \<Rightarrow> int option" where
  "py_int s base =
     (let s1 = dropWhile int_space s;
          neg = (s1 \<noteq> [] \<and> hd s1 = CHR ''-'');
          s2 = (if s1 \<noteq> [] \<and> (hd s1 = CHR ''+'' \<or> hd s1 = CHR ''-'') then tl s1 else s1);
          s3 = (if has_base_prefix base s2
                then (let r = drop 2 s2 in
                      if r \<noteq> [] \<and> hd r = CHR ''_'' then tl r else r)
                else s2)
      in if s3 \<noteq> [] \<and> hd s3 = CHR ''_'' then None
         else (case scan_digits base False s3 of
                 None \<Rightarrow> None
               | Some (ds, rest) \<Rightarrow>
                   if ds = [] then None
                   else if dropWhile int_space rest \<noteq> [] then None
                   else Some (if neg then - int (digits_value base ds)
                              else int (digits_value base ds))))"

text \<open>\<^verbatim>\<open>str(n)\<close> for an integer: the decimal digits, after a minus sign when negative.\<close>

fun str_nat :: "nat \<Rightarrow> string" where
  "str_nat n = (if n < 10 then [char_of (48 + n)]
                else str_nat (n div 10) @ [char_of (48 + n mod 10)])"

declare str_nat.simps [simp del]

definition py_str :: "int \<Rightarrow> string" where
  "py_str i = (if i < 0 then CHR ''-'' # str_nat (nat (- i)) else str_nat (nat i))"

text \<open>
  \<^verbatim>\<open>s.zfill(width)\<close>: zeros on the left up to the width, put after a leading sign.
\<close>

definition zfill :: "nat \<Rightarrow> string \<Rightarrow> string" where
  "zfill width s =
     (if width \<le> length s then s
      else if s \<noteq> [] \<and> (hd s = CHR ''+'' \<or> hd s = CHR ''-'')
           then hd s # replicate (width - length s) CHR ''0'' @ tl s
           else replicate (width - length s) CHR ''0'' @ s)"

text \<open>\<^verbatim>\<open>"\n".join(xs)\<close>\<close>

fun join_newline :: "string list \<Rightarrow> string" where
  "join_newline [] = []"
| "join_newline [x] = x"
| "join_newline (x # y # ys) = x @ CHR 0x0A # join_newline (y # ys)"

text \<open>The truth value that Python gives an optional string: neither \<^verbatim>\<open>None\<close> nor empty.\<close>

fun truthy :: "string option \<Rightarrow> bool" where
  "truthy None = False"
| "truthy (Some s) = (s \<noteq> [])"

subsection \<open>The line parser and the operand parser\<close>

text \<open>
  \<^verbatim>\<open>parse_line\<close>: the comment and the surrounding white space go; an empty rest gives
  three times \<^verbatim>\<open>None\<close>. Otherwise a first token that ends with a colon is the label,
  without the colon; the next token, in upper case, is the instruction and the one after
  it the operand. The line number is a parameter that the function never reads.
\<close>

definition parse_line :: "string \<Rightarrow> nat \<Rightarrow> string option \<times> string option \<times> string option" where
  "parse_line line line_number =
     (let line1 = strip (sub_comment line) in
      if line1 = [] then (None, None, None)
      else
        let parts = split_ws line1;
            label = (if endswith_colon (hd parts) then Some (butlast (hd parts)) else None);
            parts1 = (if endswith_colon (hd parts) then tl parts else parts)
        in (label,
            (if parts1 \<noteq> [] then Some (upper (hd parts1)) else None),
            (if parts1 \<noteq> [] \<and> 1 < length parts1 then Some (parts1 ! 1) else None)))"

text \<open>
  \<^verbatim>\<open>parse_operand\<close>: the prefix chooses the base, and a \<^verbatim>\<open>ValueError\<close> of \<^verbatim>\<open>int\<close>
  becomes an \<^verbatim>\<open>InvalidOperandError\<close> whose message names \<^verbatim>\<open>line_number + 1\<close>.
\<close>

definition parse_operand :: "string \<Rightarrow> nat \<Rightarrow> error + int" where
  "parse_operand operand_str line_number =
     (case (if startswith operand_str ''0x'' then py_int operand_str 16
            else if startswith operand_str ''0b'' then py_int operand_str 2
            else py_int operand_str 10) of
        None \<Rightarrow> Inl (InvalidOperandError (line_number + 1))
      | Some v \<Rightarrow> Inr v)"

subsection \<open>The assembler object\<close>

record LMCAssembler =
  memory_size :: nat
  labels :: "string \<rightharpoonup> nat"
  memory :: "int option list"

text \<open>\<^verbatim>\<open>__init__\<close>: no labels, and \<^verbatim>\<open>memory_size\<close> slots that all hold \<^verbatim>\<open>None\<close>.\<close>

definition init :: "nat \<Rightarrow> LMCAssembler" where
  "init msize = \<lparr>memory_size = msize, labels = Map.empty, memory = replicate msize None\<rparr>"

text \<open>
  The table \<^verbatim>\<open>INSTRUCTIONS\<close> in the order of the source, and \<^verbatim>\<open>INSTRUCTIONS.get\<close>, which
  gives \<^verbatim>\<open>None\<close> for a missing key as well as for the key \<^verbatim>\<open>DAT\<close>.
\<close>

definition INSTRUCTIONS :: "(string \<times> string option) list" where
  "INSTRUCTIONS =
     [(''ADD'', Some ''1''), (''SUB'', Some ''2''), (''STA'', Some ''3''),
      (''LDA'', Some ''5''), (''BRA'', Some ''6''), (''BRZ'', Some ''7''),
      (''BRP'', Some ''8''), (''INP'', Some ''901''), (''OUT'', Some ''902''),
      (''HLT'', Some ''000''), (''DAT'', None), (''MUL'', Some ''4'')]"

definition INSTRUCTIONS_get :: "string \<Rightarrow> string option" where
  "INSTRUCTIONS_get instruction =
     (case map_of INSTRUCTIONS instruction of None \<Rightarrow> None | Some v \<Rightarrow> v)"

subsection \<open>Pass 1\<close>

text \<open>
  One round of the loop of \<^verbatim>\<open>first_pass\<close>: the object and the address counter go in
  and come out. A label that is neither \<^verbatim>\<open>None\<close> nor empty is recorded at the current
  address unless it is already a key; the address moves on when the line has an
  instruction, \<^verbatim>\<open>DAT\<close> or not.
\<close>

definition first_pass_line ::
  "LMCAssembler \<Rightarrow> nat \<Rightarrow> nat \<Rightarrow> string \<Rightarrow> error + (LMCAssembler \<times> nat)" where
  "first_pass_line self addr line_number line =
     (case parse_line line (line_number + 1) of
        (label, instruction, _) \<Rightarrow>
          (case (if truthy label
                 then (if the label \<in> dom (labels self)
                       then Inl (DuplicateLabelError (line_number + 1))
                       else Inr (self\<lparr>labels := (labels self)(the label \<mapsto> addr)\<rparr>))
                 else Inr self) of
             Inl e \<Rightarrow> Inl e
           | Inr self1 \<Rightarrow>
               if truthy instruction \<and> instruction \<noteq> Some ''DAT'' then Inr (self1, addr + 1)
               else if instruction = Some ''DAT'' then Inr (self1, addr + 1)
               else Inr (self1, addr)))"

fun first_pass_loop ::
  "LMCAssembler \<Rightarrow> nat \<Rightarrow> nat \<Rightarrow> string list \<Rightarrow> error + (LMCAssembler \<times> nat)" where
  "first_pass_loop self addr line_number [] = Inr (self, addr)"
| "first_pass_loop self addr line_number (line # rest) =
     (case first_pass_line self addr line_number line of
        Inl e \<Rightarrow> Inl e
      | Inr (self1, addr1) \<Rightarrow> first_pass_loop self1 addr1 (line_number + 1) rest)"

definition first_pass :: "LMCAssembler \<Rightarrow> string list \<Rightarrow> error + LMCAssembler" where
  "first_pass self lines =
     (case first_pass_loop self 0 0 lines of
        Inl e \<Rightarrow> Inl e
      | Inr (self1, addr) \<Rightarrow> Inr self1)"

subsection \<open>Pass 2\<close>

text \<open>
  The three statements that end every encoding branch: the word goes into
  \<^verbatim>\<open>self.memory[address]\<close>, which raises \<^verbatim>\<open>IndexError\<close> beyond the list; the listing
  gets the two-digit address, a colon, a blank and the text of the word; the address
  moves on.
\<close>

definition store_word ::
  "LMCAssembler \<Rightarrow> string list \<Rightarrow> nat \<Rightarrow> int \<Rightarrow> string \<Rightarrow>
     error + (LMCAssembler \<times> string list \<times> nat)" where
  "store_word self machine_code addr word word_text =
     (if addr < length (memory self)
      then Inr (self\<lparr>memory := (memory self)[addr := Some word]\<rparr>,
                machine_code @ [zfill 2 (str_nat addr) @ '': '' @ word_text],
                addr + 1)
      else Inl IndexError)"

text \<open>
  The operand of an instruction that needs one: the address of the label when the token
  is a key of the label table, else the literal, which must lie in 0 to 99.
\<close>

definition resolve_operand :: "LMCAssembler \<Rightarrow> string \<Rightarrow> nat \<Rightarrow> error + int" where
  "resolve_operand self operand line_number =
     (if operand \<in> dom (labels self) then Inr (int (the (labels self operand)))
      else
        (case parse_operand operand (line_number + 1) of
           Inl e \<Rightarrow> Inl e
         | Inr operand_address \<Rightarrow>
             if \<not> (0 \<le> operand_address \<and> operand_address \<le> 99)
             then Inl (OperandRangeError (line_number + 1))
             else Inr operand_address))"

text \<open>One round of the loop of \<^verbatim>\<open>assemble\<close>.\<close>

definition assemble_line ::
  "LMCAssembler \<Rightarrow> string list \<Rightarrow> nat \<Rightarrow> nat \<Rightarrow> string \<Rightarrow>
     error + (LMCAssembler \<times> string list \<times> nat)" where
  "assemble_line self machine_code addr line_number line =
     (case parse_line line (line_number + 1) of
        (label, instruction, operand) \<Rightarrow>
          if \<not> truthy instruction then Inr (self, machine_code, addr)
          else if instruction = Some ''DAT'' then
            (case (case operand of
                     None \<Rightarrow> Inr 0
                   | Some opd \<Rightarrow> parse_operand opd (line_number + 1)) of
               Inl e \<Rightarrow> Inl e
             | Inr v \<Rightarrow>
                 if \<not> (- 999 \<le> v \<and> v \<le> 999)
                 then Inl (OperandRangeError (line_number + 1))
                 else store_word self machine_code addr v (zfill 3 (py_str v)))
          else
            (case INSTRUCTIONS_get (the instruction) of
               None \<Rightarrow> Inl (InvalidInstructionError (line_number + 1))
             | Some opcode \<Rightarrow>
                 if the instruction \<in> set [''INP'', ''OUT'', ''HLT''] then
                   (case py_int opcode 10 of
                      None \<Rightarrow> Inl ValueError
                    | Some w \<Rightarrow> store_word self machine_code addr w opcode)
                 else
                   (case operand of
                      None \<Rightarrow> Inl (InvalidOperandError (line_number + 1))
                    | Some opd \<Rightarrow>
                        (case resolve_operand self opd line_number of
                           Inl e \<Rightarrow> Inl e
                         | Inr operand_address \<Rightarrow>
                             (case py_int (opcode @ zfill 2 (py_str operand_address)) 10 of
                                None \<Rightarrow> Inl ValueError
                              | Some instruction_code \<Rightarrow>
                                  store_word self machine_code addr instruction_code
                                    (zfill 3 (py_str instruction_code)))))))"

fun assemble_loop ::
  "LMCAssembler \<Rightarrow> string list \<Rightarrow> nat \<Rightarrow> nat \<Rightarrow> string list \<Rightarrow>
     error + (LMCAssembler \<times> string list \<times> nat)" where
  "assemble_loop self machine_code addr line_number [] = Inr (self, machine_code, addr)"
| "assemble_loop self machine_code addr line_number (line # rest) =
     (case assemble_line self machine_code addr line_number line of
        Inl e \<Rightarrow> Inl e
      | Inr (self1, machine_code1, addr1) \<Rightarrow>
          assemble_loop self1 machine_code1 addr1 (line_number + 1) rest)"

subsection \<open>The emitter\<close>

text \<open>
  \<^verbatim>\<open>generate_c_code\<close>: the fixed head of the C program, one assignment for every slot
  of the memory that is not \<^verbatim>\<open>None\<close>, the fixed interpreter loop, all joined by
  newlines. In the C text the two characters backslash and \<^verbatim>\<open>n\<close> stand where the
  Python source writes an escaped backslash.
\<close>

definition c_code_head :: "string list" where
  \<open>c_code_head =
     [''#include <stdio.h>'',
      ''#include <stdlib.h>'',
      '''',
      ''int main() {'',
      ''    int accumulator = 0;'',
      ''    int memory[100] = {0};'',
      ''    int input_value;'',
      ''    int pc = 0;'',
      ''    int instruction, operand;'',
      ''    int running = 1;'',
      '''',
      ''    // Initialize memory with assembled code'']\<close>

definition c_code_tail :: "string list" where
  \<open>c_code_tail =
     ['''',
      ''    // Execute program'',
      ''    while (running) {'',
      ''        if (pc >= 100) {'',
      ''            printf("Error: Program counter out of bounds'' @ [CHR 0x5C] @ ''n");'',
      ''            exit(1);'',
      ''        }'',
      '''',
      ''        instruction = memory[pc] / 100;'',
      ''        operand = memory[pc] % 100;'',
      ''        pc++;'',
      '''',
      ''        switch (instruction) {'',
      ''            case 0:  // HLT'',
      ''                running = 0;'',
      ''                break;'',
      ''            case 1:  // ADD'',
      ''                accumulator += memory[operand];'',
      ''                accumulator %= 1000;'',
      ''                break;'',
      ''            case 2:  // SUB'',
      ''                accumulator -= memory[operand];'',
      ''               if (accumulator < 0) {'',
      ''                    accumulator = 0;'',
      ''                }'',
      ''                break;'',
      ''            case 3:  // STA'',
      ''                memory[operand] = accumulator;'',
      ''                break;'',
      ''            case 4:  // MUL'',
      ''                accumulator *= memory[operand];'',
      ''                accumulator %= 1000;'',
      ''                break;'',
      ''            case 5:  // LDA'',
      ''                accumulator = memory[operand];'',
      ''                break;'',
      ''            case 6:  // BRA'',
      ''                pc = operand;'',
      ''                break;'',
      ''            case 7:  // BRZ'',
      ''                if (accumulator == 0) {'',
      ''                    pc = operand;'',
      ''                }'',
      ''                break;'',
      ''            case 8:  // BRP'',
      ''                if (accumulator >= 0) {'',
      ''                    pc = operand;'',
      ''                }'',
      ''                break;'',
      ''            case 9:  // INP/OUT'',
      ''                if (operand == 1) {'',
      ''                    printf("Enter a value (0-999): ");'',
      ''                    if (scanf("%d", &input_value) != 1) {'',
      ''                       perror("scanf error");'',
      ''                       exit(1);'',
      ''                    }'',
      ''                    if (input_value < 0 || input_value > 999) {'',
      ''                        printf("Invalid input. Using 0.'' @ [CHR 0x5C] @ ''n");'',
      ''                        input_value = 0;'',
      ''                    }'',
      ''                    accumulator = input_value;'',
      ''                } else if (operand == 2) {'',
      ''                    printf("Output: %d'' @ [CHR 0x5C] @ ''n", accumulator);'',
      ''                }'',
      ''                break;'',
      ''            default:'',
      ''                printf("Error: Invalid instruction %d at address %d'' @ [CHR 0x5C] @ ''n", instruction, pc - 1);'',
      ''                exit(1);'',
      ''        }'',
      ''    }'',
      '''',
      ''    return 0;'',
      ''}'']\<close>

definition memory_init :: "nat \<Rightarrow> int \<Rightarrow> string" where
  "memory_init i v = ''    memory['' @ str_nat i @ ''] = '' @ py_str v @ '';''"

text \<open>The loop over \<^verbatim>\<open>enumerate(self.memory)\<close>, which appends to \<^verbatim>\<open>c_code\<close>.\<close>

fun init_memory_loop :: "string list \<Rightarrow> nat \<Rightarrow> int option list \<Rightarrow> string list" where
  "init_memory_loop c_code i [] = c_code"
| "init_memory_loop c_code i (slot # rest) =
     init_memory_loop
       (case slot of None \<Rightarrow> c_code | Some v \<Rightarrow> c_code @ [memory_init i v])
       (i + 1) rest"

definition generate_c_code :: "LMCAssembler \<Rightarrow> string" where
  "generate_c_code self =
     join_newline (init_memory_loop c_code_head 0 (memory self) @ c_code_tail)"

subsection \<open>The translation\<close>

text \<open>
  \<^verbatim>\<open>assemble\<close>: pass 1, then pass 2 from address 0 with an empty listing, then the
  emitter. The result is the pair that the method returns, together with the object as
  the method leaves it.
\<close>

definition assemble ::
  "LMCAssembler \<Rightarrow> string list \<Rightarrow> error + ((string list \<times> string) \<times> LMCAssembler)" where
  "assemble self lines =
     (case first_pass self lines of
        Inl e \<Rightarrow> Inl e
      | Inr self1 \<Rightarrow>
          (case assemble_loop self1 [] 0 0 lines of
             Inl e \<Rightarrow> Inl e
           | Inr (self2, machine_code, addr) \<Rightarrow>
               Inr ((machine_code, generate_c_code self2), self2)))"

subsection \<open>Notions of the specification\<close>

text \<open>
  A line bears a mnemonic when the parser finds an instruction on it; the lines of a
  source that do are counted.
\<close>

definition has_mnemonic :: "string \<Rightarrow> bool" where
  "has_mnemonic line = truthy (fst (snd (parse_line line 0)))"

definition label_of :: "string \<Rightarrow> string option" where
  "label_of line = fst (parse_line line 0)"

definition mnemonic_lines :: "string list \<Rightarrow> nat" where
  "mnemonic_lines lines = length (filter has_mnemonic lines)"

text \<open>
  The lines of a text, as \<^verbatim>\<open>text.split("\\n")\<close> gives them: the emitted program is
  read back line by line.
\<close>

fun text_lines :: "string \<Rightarrow> string list" where
  "text_lines [] = [[]]"
| "text_lines (c # cs) =
     (if c = CHR 0x0A then [] # text_lines cs
      else (case text_lines cs of
              [] \<Rightarrow> [[c]]
            | l # ls \<Rightarrow> (c # l) # ls))"

text \<open>
  A token of a source line: a non-empty text without white space. The slash is left out
  as well, so that no comment begins inside a token.
\<close>

definition token :: "string \<Rightarrow> bool" where
  "token s \<longleftrightarrow> s \<noteq> [] \<and> (\<forall>c\<in>set s. \<not> isspace c \<and> c \<noteq> CHR ''/'')"

subsection \<open>Example programs\<close>

definition demo :: "string list" where
  "demo = [''// count'', ''loop: LDA 5'', ''     ADD 5'', ''BRA loop // back'', ''HLT'']"

text \<open>
  A hundred instructions and then a line that holds nothing but a label, which
  pass 1 binds to the address 100; the first line jumps to that label.
\<close>

definition label_beyond :: "string list" where
  "label_beyond = ''BRA end'' # replicate 99 ''HLT'' @ [''end:'']"

text \<open>A hundred and one instructions, the first two under the same label.\<close>

definition twice_labelled :: "string list" where
  "twice_labelled = ''a: HLT'' # ''a: HLT'' # replicate 99 ''HLT''"

text \<open>A hundred and one instructions without any label.\<close>

definition one_too_many :: "string list" where
  "one_too_many = replicate 101 ''HLT''"

section \<open>Properties\<close>

subsection \<open>One round of each pass\<close>

lemma parse_line_number: "parse_line line n = parse_line line 0"
  by (simp add: parse_line_def)

lemma first_pass_line_Inr:
  assumes "first_pass_line self a n line = Inr (self', a')"
  shows "a' = (if has_mnemonic line then a + 1 else a)"
    and "labels self' = (if truthy (label_of line) then (labels self)(the (label_of line) \<mapsto> a)
                         else labels self)"
    and "truthy (label_of line) \<Longrightarrow> labels self (the (label_of line)) = None"
    and "memory self' = memory self"
    and "memory_size self' = memory_size self"
proof -
  obtain l i opd where p: "parse_line line 0 = (l, i, opd)"
    by (cases "parse_line line 0") auto
  have q: "parse_line line (n + 1) = (l, i, opd)"
    using p parse_line_number [of line "n + 1"] by simp
  have t: "truthy (Some ''DAT'')" by simp
  show "a' = (if has_mnemonic line then a + 1 else a)"
    using assms t unfolding first_pass_line_def has_mnemonic_def q p
    by (auto split: if_splits)
  show "labels self' = (if truthy (label_of line) then (labels self)(the (label_of line) \<mapsto> a)
                         else labels self)"
    using assms unfolding first_pass_line_def label_of_def q p
    by (auto split: if_splits)
  show "truthy (label_of line) \<Longrightarrow> labels self (the (label_of line)) = None"
    using assms unfolding first_pass_line_def label_of_def q p
    by (auto split: if_splits)
  show "memory self' = memory self"
    using assms unfolding first_pass_line_def q
    by (auto split: if_splits)
  show "memory_size self' = memory_size self"
    using assms unfolding first_pass_line_def q
    by (auto split: if_splits)
qed

lemma store_word_Inr:
  assumes "store_word self mc a w text = Inr r"
  shows "a < length (memory self) \<and>
         r = (self\<lparr>memory := (memory self)[a := Some w]\<rparr>,
              mc @ [zfill 2 (str_nat a) @ '': '' @ text], a + 1)"
  using assms by (auto simp: store_word_def split: if_splits)

lemma assemble_line_skip:
  "\<not> has_mnemonic line \<Longrightarrow> assemble_line self mc a n line = Inr (self, mc, a)"
  using parse_line_number [of line "n + 1"]
  unfolding assemble_line_def has_mnemonic_def
  by (cases "parse_line line 0") simp

text \<open>Every success of a line with a mnemonic is a success of store_word.\<close>

lemma assemble_line_store:
  assumes "assemble_line self mc a n line = Inr r"
      and "has_mnemonic line"
  shows "\<exists>w text. store_word self mc a w text = Inr r"
proof -
  obtain l i opd where p: "parse_line line 0 = (l, i, opd)"
    by (cases "parse_line line 0") auto
  have q: "parse_line line (n + 1) = (l, i, opd)"
    using p parse_line_number [of line "n + 1"] by simp
  have t: "truthy i" using assms(2) p by (simp add: has_mnemonic_def)
  show ?thesis
  proof (cases "i = Some ''DAT''")
    case True
    then show ?thesis
      using assms(1) unfolding assemble_line_def q
      by (simp split: sum.splits if_splits) blast
  next
    case False
    then show ?thesis
      using assms(1) t unfolding assemble_line_def q
      by (simp split: option.splits sum.splits if_splits) blast+
  qed
qed

subsection \<open>The loops\<close>

lemma mnemonic_lines_simps [simp]:
  "mnemonic_lines [] = 0"
  "mnemonic_lines (l # ls) = (if has_mnemonic l then 1 else 0) + mnemonic_lines ls"
  "mnemonic_lines (xs @ ys) = mnemonic_lines xs + mnemonic_lines ys"
  by (simp_all add: mnemonic_lines_def)

lemma first_pass_loop_append:
  "first_pass_loop self a n (xs @ ys) =
     (case first_pass_loop self a n xs of
        Inl e \<Rightarrow> Inl e
      | Inr (self1, a1) \<Rightarrow> first_pass_loop self1 a1 (n + length xs) ys)"
  by (induction xs arbitrary: self a n) (auto split: sum.splits)

lemma assemble_loop_append:
  "assemble_loop self mc a n (xs @ ys) =
     (case assemble_loop self mc a n xs of
        Inl e \<Rightarrow> Inl e
      | Inr (self1, mc1, a1) \<Rightarrow> assemble_loop self1 mc1 a1 (n + length xs) ys)"
  by (induction xs arbitrary: self mc a n) (auto split: sum.splits)

lemma first_pass_loop_Inr:
  assumes "first_pass_loop self a n lines = Inr (self', a')"
  shows "a' = a + mnemonic_lines lines"
    and "memory self' = memory self"
    and "memory_size self' = memory_size self"
    and "labels self L = Some v \<Longrightarrow> labels self' L = Some v"
  using assms
proof (induction lines arbitrary: self a n)
  case Nil
  { case 1 then show ?case by simp }
  { case 2 then show ?case by simp }
  { case 3 then show ?case by simp }
  { case 4 then show ?case by simp }
next
  case (Cons line rest)
  { case 1
    then obtain s1 a1 where s: "first_pass_line self a n line = Inr (s1, a1)"
      and r: "first_pass_loop s1 a1 (n + 1) rest = Inr (self', a')"
      by (auto split: sum.splits)
    show ?case using Cons.IH(1) [OF r] first_pass_line_Inr(1) [OF s] by simp }
  { case 2
    then obtain s1 a1 where s: "first_pass_line self a n line = Inr (s1, a1)"
      and r: "first_pass_loop s1 a1 (n + 1) rest = Inr (self', a')"
      by (auto split: sum.splits)
    show ?case using Cons.IH(2) [OF r] first_pass_line_Inr(4) [OF s] by simp }
  { case 3
    then obtain s1 a1 where s: "first_pass_line self a n line = Inr (s1, a1)"
      and r: "first_pass_loop s1 a1 (n + 1) rest = Inr (self', a')"
      by (auto split: sum.splits)
    show ?case using Cons.IH(3) [OF r] first_pass_line_Inr(5) [OF s] by simp }
  { case 4
    then obtain s1 a1 where s: "first_pass_line self a n line = Inr (s1, a1)"
      and r: "first_pass_loop s1 a1 (n + 1) rest = Inr (self', a')"
      by (auto split: sum.splits)
    have "labels s1 L = Some v"
      using first_pass_line_Inr(2,3) [OF s] 4(1) by (auto split: if_splits)
    then show ?case using Cons.IH(4) [OF _ r] by simp }
qed

lemma assemble_line_Inr:
  assumes "assemble_line self mc a n line = Inr (self', mc', a')"
  shows "a' = (if has_mnemonic line then a + 1 else a)"
    and "labels self' = labels self"
    and "memory_size self' = memory_size self"
    and "length (memory self') = length (memory self)"
    and "i < a \<Longrightarrow> memory self' ! i = memory self ! i"
    and "length mc' = (if has_mnemonic line then length mc + 1 else length mc)"
    and "j < length mc \<Longrightarrow> mc' ! j = mc ! j"
proof -
  have "(\<not> has_mnemonic line \<and> self' = self \<and> mc' = mc \<and> a' = a) \<or>
        (has_mnemonic line \<and> (\<exists>w text. a < length (memory self) \<and>
           self' = self\<lparr>memory := (memory self)[a := Some w]\<rparr> \<and>
           mc' = mc @ [zfill 2 (str_nat a) @ '': '' @ text] \<and> a' = a + 1))"
  proof (cases "has_mnemonic line")
    case False
    then show ?thesis using assms assemble_line_skip [OF False, of self mc a n] by simp
  next
    case True
    then show ?thesis
      using assemble_line_store [OF assms True] store_word_Inr by blast
  qed
  then have c: "a' = (if has_mnemonic line then a + 1 else a) \<and>
    labels self' = labels self \<and> memory_size self' = memory_size self \<and>
    length (memory self') = length (memory self) \<and>
    (i < a \<longrightarrow> memory self' ! i = memory self ! i) \<and>
    length mc' = (if has_mnemonic line then length mc + 1 else length mc) \<and>
    (j < length mc \<longrightarrow> mc' ! j = mc ! j)"
    by (auto simp: nth_append)
  show "a' = (if has_mnemonic line then a + 1 else a)" using c by blast
  show "labels self' = labels self" using c by blast
  show "memory_size self' = memory_size self" using c by blast
  show "length (memory self') = length (memory self)" using c by blast
  show "i < a \<Longrightarrow> memory self' ! i = memory self ! i" using c by blast
  show "length mc' = (if has_mnemonic line then length mc + 1 else length mc)" using c by blast
  show "j < length mc \<Longrightarrow> mc' ! j = mc ! j" using c by blast
qed

lemma assemble_loop_Inr:
  assumes "assemble_loop self mc a n lines = Inr (self', mc', a')"
  shows "a' = a + mnemonic_lines lines \<and>
         labels self' = labels self \<and>
         memory_size self' = memory_size self \<and>
         length (memory self') = length (memory self) \<and>
         (\<forall>i<a. memory self' ! i = memory self ! i) \<and>
         length mc' = length mc + mnemonic_lines lines \<and>
         (\<forall>j<length mc. mc' ! j = mc ! j)"
  using assms
proof (induction lines arbitrary: self mc a n)
  case Nil
  then show ?case by simp
next
  case (Cons line rest)
  then obtain s1 m1 a1 where s: "assemble_line self mc a n line = Inr (s1, m1, a1)"
    and r: "assemble_loop s1 m1 a1 (n + 1) rest = Inr (self', mc', a')"
    by (auto split: sum.splits)
  note ih = Cons.IH [OF r]
  note st = assemble_line_Inr [OF s]
  have a1: "a \<le> a1" using st(1) by (simp split: if_splits)
  have m1: "length mc \<le> length m1" using st(6) by (simp split: if_splits)
  have "\<forall>i<a. memory self' ! i = memory self ! i"
  proof (intro allI impI)
    fix i assume i: "i < a"
    then have "memory self' ! i = memory s1 ! i" using ih a1 by simp
    then show "memory self' ! i = memory self ! i" using st(5) [OF i] by simp
  qed
  moreover have "\<forall>j<length mc. mc' ! j = mc ! j"
  proof (intro allI impI)
    fix j assume j: "j < length mc"
    then have "mc' ! j = m1 ! j" using ih m1 by simp
    then show "mc' ! j = mc ! j" using st(7) [OF j] by simp
  qed
  ultimately show ?case using ih st(1,2,3,4,6) by (simp split: if_splits)
qed

subsection \<open>Addresses and labels\<close>

text \<open>
  Claim C1. When the translation succeeds, pass 2 reaches every line that bears a mnemonic
  with the address counter equal to the number of such lines before it, stores the word
  of the line in that slot of the memory, where it stays, and writes that address into
  the listing; and the label of a line is bound, in the table that pass 1 leaves, to the
  same number, wherever the label is used. The listing has one entry per such line.
\<close>

theorem addresses_gapless_labels_agree:
  assumes "assemble self lines = Inr (out, self')"
      and "k < length lines"
  shows "(has_mnemonic (lines ! k) \<longrightarrow>
           (\<exists>self0 self1 mc1 self2 mc2 w text.
              first_pass self lines = Inr self0 \<and>
              assemble_loop self0 [] 0 0 (take k lines) =
                Inr (self1, mc1, mnemonic_lines (take k lines)) \<and>
              assemble_line self1 mc1 (mnemonic_lines (take k lines)) k (lines ! k) =
                Inr (self2, mc2, mnemonic_lines (take k lines) + 1) \<and>
              memory self2 ! mnemonic_lines (take k lines) = Some w \<and>
              memory self' ! mnemonic_lines (take k lines) = Some w \<and>
              fst out ! mnemonic_lines (take k lines) =
                zfill 2 (str_nat (mnemonic_lines (take k lines))) @ '': '' @ text)) \<and>
         (truthy (label_of (lines ! k)) \<longrightarrow>
            labels self' (the (label_of (lines ! k))) = Some (mnemonic_lines (take k lines))) \<and>
         length (fst out) = mnemonic_lines lines"
proof -
  let ?pre = "take k lines" and ?line = "lines ! k" and ?post = "drop (Suc k) lines"
  let ?a = "mnemonic_lines ?pre"
  have split: "lines = ?pre @ ?line # ?post"
    using assms(2) by (simp add: id_take_nth_drop)
  have lenpre: "length ?pre = k" using assms(2) by simp
  obtain self0 where fp: "first_pass self lines = Inr self0"
    using assms(1) by (auto simp: assemble_def split: sum.splits)
  then obtain mcF aF where lp: "assemble_loop self0 [] 0 0 lines = Inr (self', mcF, aF)"
    and out: "out = (mcF, generate_c_code self')"
    using assms(1) by (auto simp: assemble_def split: sum.splits)
  obtain self1 mc1 a1 where l1: "assemble_loop self0 [] 0 0 ?pre = Inr (self1, mc1, a1)"
    and l2: "assemble_loop self1 mc1 a1 k (?line # ?post) = Inr (self', mcF, aF)"
    using lp assemble_loop_append [of self0 "[]" 0 0 ?pre "?line # ?post"] split lenpre
    by (auto split: sum.splits)
  have a1: "a1 = ?a" and mc1: "length mc1 = ?a"
    using assemble_loop_Inr [OF l1] by simp_all
  obtain self2 mc2 a2 where s: "assemble_line self1 mc1 a1 k ?line = Inr (self2, mc2, a2)"
    and l3: "assemble_loop self2 mc2 a2 (k + 1) ?post = Inr (self', mcF, aF)"
    using l2 by (auto split: sum.splits)
  have part1: "has_mnemonic ?line \<longrightarrow>
           (\<exists>self0 self1 mc1 self2 mc2 w text.
              first_pass self lines = Inr self0 \<and>
              assemble_loop self0 [] 0 0 ?pre = Inr (self1, mc1, ?a) \<and>
              assemble_line self1 mc1 ?a k ?line = Inr (self2, mc2, ?a + 1) \<and>
              memory self2 ! ?a = Some w \<and>
              memory self' ! ?a = Some w \<and>
              fst out ! ?a = zfill 2 (str_nat ?a) @ '': '' @ text)"
  proof
    assume hm: "has_mnemonic ?line"
    obtain w wt where sw: "store_word self1 mc1 a1 w wt = Inr (self2, mc2, a2)"
      using assemble_line_store [OF s hm] by blast
    have b: "a1 < length (memory self1)"
      and self2: "self2 = self1\<lparr>memory := (memory self1)[a1 := Some w]\<rparr>"
      and mc2: "mc2 = mc1 @ [zfill 2 (str_nat a1) @ '': '' @ wt]"
      and a2: "a2 = a1 + 1"
      using store_word_Inr [OF sw] by simp_all
    have m2: "memory self2 ! a1 = Some w" using self2 b by simp
    have "memory self' ! a1 = memory self2 ! a1"
      using assemble_loop_Inr [OF l3] a2 by simp
    moreover have "mcF ! a1 = mc2 ! a1"
      using assemble_loop_Inr [OF l3] mc2 mc1 a1 by simp
    moreover have "mc2 ! a1 = zfill 2 (str_nat a1) @ '': '' @ wt"
      using mc2 mc1 a1 by (simp add: nth_append)
    ultimately show "\<exists>self0 self1 mc1 self2 mc2 w text.
              first_pass self lines = Inr self0 \<and>
              assemble_loop self0 [] 0 0 ?pre = Inr (self1, mc1, ?a) \<and>
              assemble_line self1 mc1 ?a k ?line = Inr (self2, mc2, ?a + 1) \<and>
              memory self2 ! ?a = Some w \<and>
              memory self' ! ?a = Some w \<and>
              fst out ! ?a = zfill 2 (str_nat ?a) @ '': '' @ text"
      using fp l1 s m2 a1 a2 out by auto
  qed
  obtain addrF where f0: "first_pass_loop self 0 0 lines = Inr (self0, addrF)"
    using fp by (auto simp: first_pass_def split: sum.splits)
  obtain s1 b1 where f1: "first_pass_loop self 0 0 ?pre = Inr (s1, b1)"
    and f2: "first_pass_loop s1 b1 k (?line # ?post) = Inr (self0, addrF)"
    using f0 first_pass_loop_append [of self 0 0 ?pre "?line # ?post"] split lenpre
    by (auto split: sum.splits)
  have b1: "b1 = ?a" using first_pass_loop_Inr(1) [OF f1] by simp
  obtain s2 b2 where fs: "first_pass_line s1 b1 k ?line = Inr (s2, b2)"
    and f3: "first_pass_loop s2 b2 (k + 1) ?post = Inr (self0, addrF)"
    using f2 by (auto split: sum.splits)
  have part2: "truthy (label_of ?line) \<longrightarrow> labels self' (the (label_of ?line)) = Some ?a"
  proof
    assume t: "truthy (label_of ?line)"
    have "labels s2 (the (label_of ?line)) = Some b1"
      using first_pass_line_Inr(2) [OF fs] t by simp
    then have "labels self0 (the (label_of ?line)) = Some b1"
      using first_pass_loop_Inr(4) [OF f3] by simp
    then show "labels self' (the (label_of ?line)) = Some ?a"
      using assemble_loop_Inr [OF lp] b1 by simp
  qed
  have part3: "length (fst out) = mnemonic_lines lines"
    using assemble_loop_Inr [OF lp] out by simp
  show ?thesis using part1 part2 part3 by blast
qed

theorem addresses_gapless_labels_agree_witness:
  "assemble (init 100) demo =
     Inr (fst (projr (assemble (init 100) demo)), snd (projr (assemble (init 100) demo))) \<and>
   (1::nat) < length demo \<and> has_mnemonic (demo ! 1) \<and> truthy (label_of (demo ! 1)) \<and>
   labels (snd (projr (assemble (init 100) demo))) ''loop'' = Some 0 \<and>
   memory (snd (projr (assemble (init 100) demo))) ! 0 \<noteq> None \<and>
   length (fst (fst (projr (assemble (init 100) demo)))) = 4"
proof -
  have ok: "\<not> isl (assemble (init 100) demo)"
    by code_simp
  then have h: "assemble (init 100) demo =
     Inr (fst (projr (assemble (init 100) demo)), snd (projr (assemble (init 100) demo)))"
    by (cases "assemble (init 100) demo") auto
  have k: "(1::nat) < length demo"
    by (simp add: demo_def)
  have f1: "has_mnemonic (demo ! 1)" by code_simp
  have f2: "truthy (label_of (demo ! 1))" by code_simp
  have f3: "the (label_of (demo ! 1)) = ''loop''" by code_simp
  have f4: "mnemonic_lines (take 1 demo) = 0" by code_simp
  have f5: "mnemonic_lines demo = 4" by code_simp
  show ?thesis
    using addresses_gapless_labels_agree [OF h k] h k f1 f2 f3 f4 f5 by auto
qed

subsection \<open>Numerals: reading and printing\<close>

lemma digit_value_small:
  assumes "digit_value c < 37"
  shows "\<not> int_space c" and "c \<noteq> CHR ''+''" and "c \<noteq> CHR ''-''" and "c \<noteq> CHR ''_''"
  using assms by (auto simp: int_space_def digit_value_def)

lemma scan_digits_all:
  assumes "\<forall>c\<in>set cs. digit_value c < base" and "base \<le> 36"
  shows "scan_digits base False cs = Some (map digit_value cs, [])"
  using assms
proof (induction cs)
  case Nil
  then show ?case by simp
next
  case (Cons c cs)
  then have "c \<noteq> CHR ''_''" using digit_value_small(4) [of c] by auto
  then show ?case using Cons by simp
qed

lemma has_base_prefix_digits:
  assumes "\<forall>c\<in>set cs. digit_value c < base" and "base \<le> 16"
  shows "\<not> has_base_prefix base cs"
proof -
  have x: "digit_value CHR ''x'' = 33" "digit_value CHR ''X'' = 33"
          "digit_value CHR ''b'' = 11" "digit_value CHR ''B'' = 11"
    by (simp_all add: digit_value_def)
  show ?thesis
    using assms x unfolding has_base_prefix_def
    by (auto split: list.splits)
qed

lemma py_int_digits:
  assumes "cs \<noteq> []" and "\<forall>c\<in>set cs. digit_value c < base" and "base \<le> 16"
  shows "py_int cs base = Some (int (digits_value base (map digit_value cs)))"
proof -
  obtain c r where cs: "cs = c # r" using assms(1) by (cases cs) auto
  have c: "digit_value c < 37" using assms(2,3) cs by fastforce
  note f = digit_value_small [OF c]
  have d: "dropWhile int_space cs = cs" using cs f(1) by simp
  have s: "scan_digits base False cs = Some (map digit_value cs, [])"
    using scan_digits_all [OF assms(2)] assms(3) by simp
  show ?thesis
    unfolding py_int_def d Let_def
    using has_base_prefix_digits [OF assms(2,3)] s f cs by simp
qed


lemma parse_operand_radix:
  "parse_operand t k =
     (case py_int t (if startswith t ''0x'' then 16 else if startswith t ''0b'' then 2 else 10) of
        None \<Rightarrow> Inl (InvalidOperandError (k + 1))
      | Some v \<Rightarrow> Inr v)"
  by (simp add: parse_operand_def)




lemma digit_value_char_of: "k < 10 \<Longrightarrow> digit_value (char_of (48 + k)) = k"
  by (simp add: digit_value_def)

lemma str_nat_small: "n < 10 \<Longrightarrow> str_nat n = [char_of (48 + n)]"
  by (simp add: str_nat.simps)

lemma str_nat_two_digits:
  assumes "n < 100"
  shows "zfill 2 (str_nat n) = [char_of (48 + n div 10), char_of (48 + n mod 10)]"
proof (cases "n < 10")
  case True
  have o: "of_char (char_of (48 + n) :: char) = 48 + n" using True by simp
  have "char_of (48 + n) \<noteq> CHR ''+''"
  proof
    assume "char_of (48 + n) = CHR ''+''"
    then have "of_char (char_of (48 + n) :: char) = (of_char CHR ''+'' :: nat)" by simp
    then show False using o by simp
  qed
  moreover have "char_of (48 + n) \<noteq> CHR ''-''"
  proof
    assume "char_of (48 + n) = CHR ''-''"
    then have "of_char (char_of (48 + n) :: char) = (of_char CHR ''-'' :: nat)" by simp
    then show False using o by simp
  qed
  ultimately have "char_of (48 + n) \<noteq> CHR ''+'' \<and> char_of (48 + n) \<noteq> CHR ''-''"
    by auto
  moreover have "char_of (48::nat) = CHR ''0''"
  proof -
    have "(of_char (char_of (48::nat) :: char) :: nat) = of_char CHR ''0''" by simp
    then show ?thesis by (simp only: of_char_eq_iff)
  qed
  ultimately show ?thesis using True by (simp add: str_nat_small zfill_def)
next
  case False
  then have "n div 10 < 10" using assms by simp
  then have "str_nat n = [char_of (48 + n div 10), char_of (48 + n mod 10)]"
    using False str_nat.simps [of n] by (simp add: str_nat_small)
  then show ?thesis by (simp add: zfill_def)
qed

lemma instruction_code:
  assumes "digit_value c = d" and "d < 10" and "0 \<le> a" and "a \<le> 99"
  shows "py_int (c # zfill 2 (py_str a)) 10 = Some (int d * 100 + a)"
proof -
  let ?n = "nat a"
  have n: "?n < 100" using assms(3,4) by simp
  have s: "zfill 2 (py_str a) = [char_of (48 + ?n div 10), char_of (48 + ?n mod 10)]"
    using str_nat_two_digits [OF n] assms(3) by (simp add: py_str_def)
  have dv: "digit_value (char_of (48 + ?n div 10)) = ?n div 10"
           "digit_value (char_of (48 + ?n mod 10)) = ?n mod 10"
    using n by (simp_all add: digit_value_char_of)
  have "py_int (c # zfill 2 (py_str a)) 10 =
        Some (int (digits_value 10 (map digit_value (c # zfill 2 (py_str a)))))"
  proof -
    have "nat a div 10 < 10" "nat a mod 10 < 10" using n by simp_all
    then show ?thesis
      unfolding s using assms(1,2) dv by (intro py_int_digits) auto
  qed
  also have "digits_value 10 (map digit_value (c # zfill 2 (py_str a))) = d * 100 + ?n"
    unfolding s using assms(1) dv by (simp add: digits_value_def)
  finally show ?thesis using assms(3) by simp
qed

lemma store_word_eq:
  "store_word self mc addr w wt =
     (if addr < length (memory self)
      then Inr (self\<lparr>memory := (memory self)[addr := Some w]\<rparr>,
                mc @ [zfill 2 (str_nat addr) @ '': '' @ wt], addr + 1)
      else Inl IndexError)"
  by (simp add: store_word_def)

subsection \<open>The table of instructions\<close>

lemma INSTRUCTIONS_get_simps:
  "INSTRUCTIONS_get ''ADD'' = Some ''1''" "INSTRUCTIONS_get ''SUB'' = Some ''2''"
  "INSTRUCTIONS_get ''STA'' = Some ''3''" "INSTRUCTIONS_get ''MUL'' = Some ''4''"
  "INSTRUCTIONS_get ''LDA'' = Some ''5''" "INSTRUCTIONS_get ''BRA'' = Some ''6''"
  "INSTRUCTIONS_get ''BRZ'' = Some ''7''" "INSTRUCTIONS_get ''BRP'' = Some ''8''"
  "INSTRUCTIONS_get ''INP'' = Some ''901''" "INSTRUCTIONS_get ''OUT'' = Some ''902''"
  "INSTRUCTIONS_get ''HLT'' = Some ''000''" "INSTRUCTIONS_get ''DAT'' = None"
  by (simp_all add: INSTRUCTIONS_get_def INSTRUCTIONS_def)

lemma digit_value_literals:
  "digit_value CHR ''1'' = 1" "digit_value CHR ''2'' = 2" "digit_value CHR ''3'' = 3"
  "digit_value CHR ''4'' = 4" "digit_value CHR ''5'' = 5" "digit_value CHR ''6'' = 6"
  "digit_value CHR ''7'' = 7" "digit_value CHR ''8'' = 8" "digit_value CHR ''9'' = 9"
  "digit_value CHR ''0'' = 0"
  by (simp_all add: digit_value_def)

lemma operand_instruction:
  assumes "m = ''ADD'' \<and> d = 1 \<or> m = ''SUB'' \<and> d = 2 \<or> m = ''STA'' \<and> d = 3 \<or>
           m = ''MUL'' \<and> d = 4 \<or> m = ''LDA'' \<and> d = 5 \<or> m = ''BRA'' \<and> d = 6 \<or>
           m = ''BRZ'' \<and> d = 7 \<or> m = ''BRP'' \<and> d = 8"
  shows "\<exists>c. INSTRUCTIONS_get m = Some [c] \<and> int (digit_value c) = d \<and> digit_value c < 10 \<and>
             m \<noteq> ''DAT'' \<and> m \<notin> set [''INP'', ''OUT'', ''HLT''] \<and> m \<noteq> []"
  using assms
  by (elim disjE conjE) (simp_all add: INSTRUCTIONS_get_simps digit_value_literals)

lemma assemble_line_operand:
  assumes "parse_line line (n + 1) = (lab, Some m, opd)"
      and "INSTRUCTIONS_get m = Some opcode"
      and "m \<noteq> ''DAT''" and "m \<notin> set [''INP'', ''OUT'', ''HLT'']" and "m \<noteq> []"
  shows "assemble_line self mc addr n line =
     (case opd of
        None \<Rightarrow> Inl (InvalidOperandError (n + 1))
      | Some t \<Rightarrow>
          (case resolve_operand self t n of
             Inl e \<Rightarrow> Inl e
           | Inr a \<Rightarrow>
               (case py_int (opcode @ zfill 2 (py_str a)) 10 of
                  None \<Rightarrow> Inl ValueError
                | Some w \<Rightarrow> store_word self mc addr w (zfill 3 (py_str w)))))"
  using assms(2-) unfolding assemble_line_def assms(1) by simp

subsection \<open>The word of an instruction with an operand\<close>

text \<open>
  Claim C2. A line whose mnemonic is one of \<^verbatim>\<open>ADD\<close>, \<^verbatim>\<open>SUB\<close>, \<^verbatim>\<open>STA\<close>, \<^verbatim>\<open>MUL\<close>,
  \<^verbatim>\<open>LDA\<close>, \<^verbatim>\<open>BRA\<close>, \<^verbatim>\<open>BRZ\<close>, \<^verbatim>\<open>BRP\<close> and whose operand resolves, through the
  label table or as a literal, to an address \<open>a\<close> from 0 to 99 stores the word
  \<open>d * 100 + a\<close> at the current address, \<open>d\<close> being the digit 1, 2, 3, 4, 5, 6, 7, 8 of
  the mnemonic; beyond the end of the memory list the store raises \<^verbatim>\<open>IndexError\<close>.
\<close>

theorem operand_instruction_word:
  assumes "parse_line line (n + 1) = (lab, Some m, Some t)"
      and "m = ''ADD'' \<and> d = 1 \<or> m = ''SUB'' \<and> d = 2 \<or> m = ''STA'' \<and> d = 3 \<or>
           m = ''MUL'' \<and> d = 4 \<or> m = ''LDA'' \<and> d = 5 \<or> m = ''BRA'' \<and> d = 6 \<or>
           m = ''BRZ'' \<and> d = 7 \<or> m = ''BRP'' \<and> d = 8"
      and "resolve_operand self t n = Inr a"
      and "0 \<le> a" and "a \<le> 99"
  shows "assemble_line self mc addr n line =
     (if addr < length (memory self)
      then Inr (self\<lparr>memory := (memory self)[addr := Some (d * 100 + a)]\<rparr>,
                mc @ [zfill 2 (str_nat addr) @ '': '' @ zfill 3 (py_str (d * 100 + a))],
                addr + 1)
      else Inl IndexError)"
proof -
  obtain c where c: "INSTRUCTIONS_get m = Some [c]" "int (digit_value c) = d"
      "digit_value c < 10" "m \<noteq> ''DAT''" "m \<notin> set [''INP'', ''OUT'', ''HLT'']" "m \<noteq> []"
    using operand_instruction [OF assms(2)] by blast
  have w: "py_int ([c] @ zfill 2 (py_str a)) 10 = Some (d * 100 + a)"
    using instruction_code [OF refl c(3) assms(4,5)] c(2) by simp
  show ?thesis
    using assemble_line_operand [OF assms(1) c(1,4,5,6), of self mc addr] assms(3) w
    by (simp add: store_word_eq)
qed

theorem operand_instruction_word_witness:
  "parse_line ''sta 0x1F'' (0 + 1) = (None, Some ''STA'', Some ''0x1F'') \<and>
   resolve_operand (init 100) ''0x1F'' 0 = Inr 31 \<and>
   assemble_line (init 100) [] 0 0 ''sta 0x1F'' =
     Inr ((init 100)\<lparr>memory := (memory (init 100))[0 := Some 331]\<rparr>, [''00: 331''], 1)"
proof -
  have p: "parse_line ''sta 0x1F'' (0 + 1) = (None, Some ''STA'', Some ''0x1F'')"
    by code_simp
  have r: "resolve_operand (init 100) ''0x1F'' 0 = Inr 31"
    by code_simp
  have l: "0 < length (memory (init 100))"
    by (simp add: init_def)
  have z: "zfill 2 (str_nat 0) @ '': '' @ zfill 3 (py_str (3 * 100 + 31)) = ''00: 331''"
    by code_simp
  have b: "(0::int) \<le> 31" "(31::int) \<le> 99" by simp_all
  have m: "''STA'' = ''ADD'' \<and> (3::int) = 1 \<or> ''STA'' = ''SUB'' \<and> (3::int) = 2 \<or>
           ''STA'' = ''STA'' \<and> (3::int) = 3 \<or> ''STA'' = ''MUL'' \<and> (3::int) = 4 \<or>
           ''STA'' = ''LDA'' \<and> (3::int) = 5 \<or> ''STA'' = ''BRA'' \<and> (3::int) = 6 \<or>
           ''STA'' = ''BRZ'' \<and> (3::int) = 7 \<or> ''STA'' = ''BRP'' \<and> (3::int) = 8"
    by simp
  show ?thesis
    using operand_instruction_word [OF p m r b, of "[]" 0] p r l z by simp
qed

subsection \<open>The fixed codes\<close>

text \<open>
  Claim C5. A line whose mnemonic is \<^verbatim>\<open>INP\<close>, \<^verbatim>\<open>OUT\<close> or \<^verbatim>\<open>HLT\<close> stores 901, 902
  or 0 at the current address, whatever operand the line has or lacks: the operand is
  never read and triggers no error.
\<close>

theorem fixed_code_word:
  assumes "parse_line line (n + 1) = (lab, Some m, opd)"
      and "m = ''INP'' \<and> w = 901 \<and> wt = ''901'' \<or> m = ''OUT'' \<and> w = 902 \<and> wt = ''902'' \<or>
           m = ''HLT'' \<and> w = 0 \<and> wt = ''000''"
  shows "assemble_line self mc addr n line =
     (if addr < length (memory self)
      then Inr (self\<lparr>memory := (memory self)[addr := Some w]\<rparr>,
                mc @ [zfill 2 (str_nat addr) @ '': '' @ wt], addr + 1)
      else Inl IndexError)"
proof -
  have i: "py_int ''901'' 10 = Some 901" "py_int ''902'' 10 = Some 902"
          "py_int ''000'' 10 = Some 0"
    by code_simp+
  show ?thesis
    using assms(2) unfolding assemble_line_def assms(1)
    by (elim disjE conjE) (simp_all add: INSTRUCTIONS_get_simps i store_word_eq)
qed

theorem fixed_code_word_witness:
  "parse_line ''out 55 // the operand is ignored'' (0 + 1) = (None, Some ''OUT'', Some ''55'') \<and>
   assemble_line (init 100) [] 0 0 ''out 55 // the operand is ignored'' =
     Inr ((init 100)\<lparr>memory := (memory (init 100))[0 := Some 902]\<rparr>, [''00: 902''], 1)"
proof -
  have p: "parse_line ''out 55 // the operand is ignored'' (0 + 1) =
             (None, Some ''OUT'', Some ''55'')"
    by code_simp
  have l: "0 < length (memory (init 100))"
    by (simp add: init_def)
  have z: "zfill 2 (str_nat 0) @ '': '' @ ''902'' = ''00: 902''"
    by code_simp
  have m: "''OUT'' = ''INP'' \<and> (902::int) = 901 \<and> ''902'' = ''901'' \<or>
           ''OUT'' = ''OUT'' \<and> (902::int) = 902 \<and> ''902'' = ''902'' \<or>
           ''OUT'' = ''HLT'' \<and> (902::int) = 0 \<and> ''902'' = ''000''"
    by simp
  show ?thesis
    using fixed_code_word [OF p m, of "init 100" "[]" 0] p l z by simp
qed

subsection \<open>The directive DAT\<close>

text \<open>
  Claim C6. On a \<^verbatim>\<open>DAT\<close> line without operand the word is 0; with an operand it is
  the value that \<^verbatim>\<open>parse_operand\<close> gives, when that lies between -999 and 999, and
  \<^verbatim>\<open>OperandRangeError\<close> is raised otherwise; the word is stored at the current address.
  An operand that does not parse raises the error of \<^verbatim>\<open>parse_operand\<close>.
\<close>

theorem dat_word:
  assumes "parse_line line (n + 1) = (lab, Some ''DAT'', opd)"
  shows "assemble_line self mc addr n line =
     (case (case opd of None \<Rightarrow> Inr 0 | Some t \<Rightarrow> parse_operand t (n + 1)) of
        Inl e \<Rightarrow> Inl e
      | Inr v \<Rightarrow>
          if - 999 \<le> v \<and> v \<le> 999
          then (if addr < length (memory self)
                then Inr (self\<lparr>memory := (memory self)[addr := Some v]\<rparr>,
                          mc @ [zfill 2 (str_nat addr) @ '': '' @ zfill 3 (py_str v)],
                          addr + 1)
                else Inl IndexError)
          else Inl (OperandRangeError (n + 1)))"
  unfolding assemble_line_def assms
  by (simp add: store_word_eq split: sum.splits option.splits)

theorem dat_word_witness:
  "parse_line ''x: DAT -7'' (0 + 1) = (Some ''x'', Some ''DAT'', Some ''-7'') \<and>
   assemble_line (init 100) [] 0 0 ''x: DAT -7'' =
     Inr ((init 100)\<lparr>memory := (memory (init 100))[0 := Some (- 7)]\<rparr>, [''00: -07''], 1) \<and>
   parse_line ''DAT'' (1 + 1) = (None, Some ''DAT'', None) \<and>
   assemble_line (init 100) [] 1 1 ''DAT'' =
     Inr ((init 100)\<lparr>memory := (memory (init 100))[1 := Some 0]\<rparr>, [''01: 000''], 2) \<and>
   parse_line ''DAT 1000'' (2 + 1) = (None, Some ''DAT'', Some ''1000'') \<and>
   assemble_line (init 100) [] 2 2 ''DAT 1000'' = Inl (OperandRangeError 3)"
proof -
  have p1: "parse_line ''x: DAT -7'' (0 + 1) = (Some ''x'', Some ''DAT'', Some ''-7'')"
    by code_simp
  have p2: "parse_line ''DAT'' (1 + 1) = (None, Some ''DAT'', None)"
    by code_simp
  have p3: "parse_line ''DAT 1000'' (2 + 1) = (None, Some ''DAT'', Some ''1000'')"
    by code_simp
  have v: "parse_operand ''-7'' (0 + 1) = Inr (- 7)" "parse_operand ''1000'' (2 + 1) = Inr 1000"
    by code_simp+
  have l: "length (memory (init 100)) = 100"
    by (simp add: init_def)
  have z: "zfill 2 (str_nat 0) @ '': '' @ zfill 3 (py_str (- 7)) = ''00: -07''"
          "zfill 2 (str_nat 1) @ '': '' @ zfill 3 (py_str 0) = ''01: 000''"
    by code_simp+
  show ?thesis
    using dat_word [OF p1, of "init 100" "[]" 0] dat_word [OF p2, of "init 100" "[]" 1]
      dat_word [OF p3, of "init 100" "[]" 2] p1 p2 p3 v l z
    by simp
qed

subsection \<open>Resolving an operand\<close>

lemma resolve_operand_eq:
  "resolve_operand self t n =
     (case labels self t of
        Some a \<Rightarrow> Inr (int a)
      | None \<Rightarrow>
          (case py_int t (if startswith t ''0x'' then 16
                          else if startswith t ''0b'' then 2 else 10) of
             None \<Rightarrow> Inl (InvalidOperandError (n + 2))
           | Some v \<Rightarrow>
               if 0 \<le> v \<and> v \<le> 99 then Inr v else Inl (OperandRangeError (n + 1))))"
  by (auto simp: resolve_operand_def parse_operand_def domIff split: option.splits)

lemma operand_mnemonic:
  assumes "m = ''ADD'' \<or> m = ''SUB'' \<or> m = ''STA'' \<or> m = ''MUL'' \<or>
           m = ''LDA'' \<or> m = ''BRA'' \<or> m = ''BRZ'' \<or> m = ''BRP''"
  shows "\<exists>c. INSTRUCTIONS_get m = Some [c] \<and> 0 < digit_value c \<and> digit_value c < 9 \<and>
             m \<noteq> ''DAT'' \<and> m \<notin> set [''INP'', ''OUT'', ''HLT''] \<and> m \<noteq> []"
  using assms
  by (elim disjE) (simp_all add: INSTRUCTIONS_get_simps digit_value_literals)

lemma assemble_line_resolution:
  assumes "parse_line line (n + 1) = (lab, Some m, opd)"
      and "m = ''ADD'' \<or> m = ''SUB'' \<or> m = ''STA'' \<or> m = ''MUL'' \<or>
           m = ''LDA'' \<or> m = ''BRA'' \<or> m = ''BRZ'' \<or> m = ''BRP''"
  shows "assemble_line self mc addr n line =
     (case opd of
        None \<Rightarrow> Inl (InvalidOperandError (n + 1))
      | Some t \<Rightarrow>
          (case (case labels self t of
                   Some a \<Rightarrow> Inr (int a)
                 | None \<Rightarrow>
                     (case py_int t (if startswith t ''0x'' then 16
                                     else if startswith t ''0b'' then 2 else 10) of
                        None \<Rightarrow> Inl (InvalidOperandError (n + 2))
                      | Some v \<Rightarrow>
                          if 0 \<le> v \<and> v \<le> 99 then Inr v
                          else Inl (OperandRangeError (n + 1)))) of
             Inl e \<Rightarrow> Inl e
           | Inr a \<Rightarrow>
               (case py_int (the (INSTRUCTIONS_get m) @ zfill 2 (py_str a)) 10 of
                  None \<Rightarrow> Inl ValueError
                | Some w \<Rightarrow> store_word self mc addr w (zfill 3 (py_str w)))))"
proof -
  obtain c where c: "INSTRUCTIONS_get m = Some [c]"
      "m \<noteq> ''DAT''" "m \<notin> set [''INP'', ''OUT'', ''HLT'']" "m \<noteq> []"
    using operand_mnemonic [OF assms(2)] by blast
  show ?thesis
    unfolding assemble_line_operand [OF assms(1) c, of self mc addr]
      resolve_operand_eq c(1) option.sel
    by (rule refl)
qed



subsection \<open>The line number of a parse failure\<close>

text \<open>
  Claim C4. The claim holds of every error except the one that \<^verbatim>\<open>parse_operand\<close> raises:
  \<^verbatim>\<open>assemble\<close> hands it \<^verbatim>\<open>line_number + 1\<close> and \<^verbatim>\<open>parse_operand\<close> adds one again, so
  an operand that does not parse on the first line of a source is reported on line 2.
\<close>

theorem parse_failure_line_number:
  "assemble (init 100) [''ADD xyz''] = Inl (InvalidOperandError 2)"
proof -
  have "isl (assemble (init 100) [''ADD xyz'']) \<and>
        projl (assemble (init 100) [''ADD xyz'']) = InvalidOperandError 2"
    by code_simp
  then show ?thesis
    by (cases "assemble (init 100) [''ADD xyz'']") auto
qed

subsection \<open>The emitted program\<close>

lemma init_memory_loop_eq:
  "init_memory_loop c i mem =
     c @ map (\<lambda>j. memory_init (i + j) (the (mem ! j)))
           (filter (\<lambda>j. mem ! j \<noteq> None) [0..<length mem])"
proof (induction mem arbitrary: c i)
  case Nil
  show ?case by simp
next
  case (Cons slot rest)
  have u: "[0..<length (slot # rest)] = 0 # map Suc [0..<length rest]"
    by (simp add: upt_conv_Cons map_Suc_upt del: upt_Suc)
  show ?case
    unfolding u
    by (cases slot) (simp_all add: Cons.IH filter_map o_def)
qed

lemma text_lines_plain: "CHR 0x0A \<notin> set x \<Longrightarrow> text_lines x = [x]"
  by (induction x) auto

lemma text_lines_append:
  "CHR 0x0A \<notin> set x \<Longrightarrow> text_lines (x @ CHR 0x0A # r) = x # text_lines r"
  by (induction x) auto

lemma text_lines_join:
  assumes "xs \<noteq> []" and "\<forall>x\<in>set xs. CHR 0x0A \<notin> set x"
  shows "text_lines (join_newline xs) = xs"
  using assms
proof (induction xs rule: join_newline.induct)
  case 1
  then show ?case by simp
next
  case (2 x)
  then show ?case by (simp add: text_lines_plain)
next
  case (3 x y ys)
  then show ?case by (simp add: text_lines_append)
qed

lemma char_of_digit:
  assumes "k < 10"
  shows "(of_char (char_of (48 + k) :: char) :: nat) = 48 + k"
  using assms by simp

lemma str_nat_digits: "c \<in> set (str_nat n) \<Longrightarrow> 48 \<le> (of_char c :: nat) \<and> (of_char c :: nat) \<le> 57"
proof (induction n arbitrary: c rule: str_nat.induct)
  case (1 n)
  show ?case
  proof (cases "n < 10")
    case True
    then have "c = char_of (48 + n)" using 1(2) by (simp add: str_nat.simps [of n])
    then show ?thesis using char_of_digit [OF True] True by simp
  next
    case False
    have m: "n mod 10 < 10" by simp
    have "str_nat n = str_nat (n div 10) @ [char_of (48 + n mod 10)]"
      using False by (simp add: str_nat.simps [of n])
    with 1(2) have "c \<in> set (str_nat (n div 10)) \<or> c = char_of (48 + n mod 10)"
      by auto
    then show ?thesis
      using 1(1) [OF False] char_of_digit [OF m] by auto
  qed
qed

lemma str_nat_nonempty: "str_nat n \<noteq> []"
  by (simp add: str_nat.simps [of n])

lemma digits_value_snoc: "digits_value b (ds @ [d]) = digits_value b ds * b + d"
  by (simp add: digits_value_def)

lemma str_nat_value: "digits_value 10 (map digit_value (str_nat n)) = n"
proof (induction n rule: str_nat.induct)
  case (1 n)
  show ?case
  proof (cases "n < 10")
    case True
    then show ?thesis
      by (simp add: str_nat.simps [of n] digits_value_def digit_value_char_of)
  next
    case False
    have m: "n mod 10 < 10" by simp
    have s: "str_nat n = str_nat (n div 10) @ [char_of (48 + n mod 10)]"
      using False by (simp add: str_nat.simps [of n])
    have "digits_value 10 (map digit_value (str_nat n)) =
          digits_value 10 (map digit_value (str_nat (n div 10))) * 10 +
          digit_value (char_of (48 + n mod 10))"
      unfolding s by (simp only: map_append list.map digits_value_snoc)
    also have "\<dots> = (n div 10) * 10 + n mod 10"
      by (simp only: 1 [OF False] digit_value_char_of [OF m])
    finally show ?thesis by simp
  qed
qed

lemma str_nat_inj: "str_nat m = str_nat n \<Longrightarrow> m = n"
  by (metis str_nat_value)

lemma str_nat_no_char:
  assumes "(of_char c :: nat) < 48 \<or> 57 < (of_char c :: nat)"
  shows "c \<notin> set (str_nat n)"
  using assms str_nat_digits [of c n] by auto

lemma py_str_inj: "py_str v = py_str w \<Longrightarrow> v = w"
proof -
  assume e: "py_str v = py_str w"
  have minus: "CHR ''-'' \<notin> set (str_nat k)" for k
    by (rule str_nat_no_char) simp
  have hd: "str_nat k \<noteq> CHR ''-'' # r" for k r
    using minus [of k] by (metis list.set_intros(1))
  show ?thesis
  proof (cases "v < 0")
    case True
    show ?thesis
    proof (cases "w < 0")
      case True
      with \<open>v < 0\<close> e have "nat (- v) = nat (- w)"
        by (auto simp: py_str_def dest: str_nat_inj)
      then show ?thesis using True \<open>v < 0\<close> by simp
    next
      case False
      then have "str_nat (nat w) = CHR ''-'' # str_nat (nat (- v))"
        using \<open>v < 0\<close> e by (simp add: py_str_def)
      then show ?thesis using hd by blast
    qed
  next
    case False
    show ?thesis
    proof (cases "w < 0")
      case True
      then have "str_nat (nat v) = CHR ''-'' # str_nat (nat (- w))"
        using False e by (simp add: py_str_def)
      then show ?thesis using hd by blast
    next
      case w: False
      with False e have "nat v = nat w"
        by (auto simp: py_str_def dest: str_nat_inj)
      then show ?thesis using False w by simp
    qed
  qed
qed

lemma py_str_no_char:
  assumes "(of_char c :: nat) < 45 \<or> 57 < (of_char c :: nat)"
  shows "c \<notin> set (py_str v)"
proof -
  have "c \<noteq> CHR ''-''" using assms by auto
  moreover have "c \<notin> set (str_nat k)" for k
    using assms by (intro str_nat_no_char) auto
  ultimately show ?thesis by (simp add: py_str_def)
qed

lemma takeWhile_until: "c \<notin> set xs \<Longrightarrow> takeWhile (\<lambda>x. x \<noteq> c) (xs @ c # r) = xs"
  by (induction xs) auto

lemma memory_init_inj:
  assumes "memory_init i v = memory_init j w"
  shows "i = j \<and> v = w"
proof -
  have b: "CHR '']'' \<notin> set (str_nat k)" for k
    by (rule str_nat_no_char) simp
  from assms have e: "str_nat i @ CHR '']'' # ('' = '' @ py_str v @ '';'') =
                      str_nat j @ CHR '']'' # ('' = '' @ py_str w @ '';'')"
    by (simp add: memory_init_def)
  have "takeWhile (\<lambda>c. c \<noteq> CHR '']'') (str_nat i @ CHR '']'' # ('' = '' @ py_str v @ '';'')) =
        str_nat i"
    using b [of i] by (rule takeWhile_until)
  moreover have "takeWhile (\<lambda>c. c \<noteq> CHR '']'') (str_nat j @ CHR '']'' # ('' = '' @ py_str w @ '';'')) =
        str_nat j"
    using b [of j] by (rule takeWhile_until)
  ultimately have s: "str_nat i = str_nat j" by (simp only: e)
  then have "py_str v = py_str w" using e by simp
  then show ?thesis using s str_nat_inj py_str_inj by blast
qed

lemma memory_init_no_newline: "CHR 0x0A \<notin> set (memory_init i v)"
proof -
  have "CHR 0x0A \<notin> set (str_nat i)" by (rule str_nat_no_char) simp
  moreover have "CHR 0x0A \<notin> set (py_str v)" by (rule py_str_no_char) simp
  ultimately show ?thesis by (simp add: memory_init_def)
qed

lemma fixed_lines:
  "\<forall>l\<in>set (c_code_head @ c_code_tail). CHR 0x0A \<notin> set l \<and> take 11 l \<noteq> ''    memory[''"
  by code_simp

lemma memory_init_not_fixed: "memory_init i v \<notin> set (c_code_head @ c_code_tail)"
proof
  assume "memory_init i v \<in> set (c_code_head @ c_code_tail)"
  then have "take 11 (memory_init i v) \<noteq> ''    memory[''"
    using fixed_lines by blast
  then show False by (simp add: memory_init_def)
qed

lemma distinct_count_list:
  "distinct xs \<Longrightarrow> count_list xs x = (if x \<in> set xs then 1 else 0)"
  by (induction xs) auto

lemma count_initializers:
  "count_list (map (\<lambda>j. memory_init j (the (mem ! j)))
                 (filter (\<lambda>j. mem ! j \<noteq> None) [0..<length mem])) (memory_init i v) =
     (if i < length mem \<and> mem ! i = Some v then 1 else 0)"
proof -
  let ?idx = "filter (\<lambda>j. mem ! j \<noteq> None) [0..<length mem]"
  have "count_list (map (\<lambda>j. memory_init j (the (mem ! j))) ?idx) (memory_init i v) =
        length (filter (\<lambda>j. memory_init i v = memory_init j (the (mem ! j))) ?idx)"
    by (simp add: count_list_eq_length_filter filter_map o_def)
  also have "filter (\<lambda>j. memory_init i v = memory_init j (the (mem ! j))) ?idx =
             filter (\<lambda>j. i = j \<and> mem ! i = Some v) ?idx"
  proof (rule filter_cong [OF refl])
    fix j assume "j \<in> set ?idx"
    then obtain w where w: "mem ! j = Some w" by auto
    show "(memory_init i v = memory_init j (the (mem ! j))) = (i = j \<and> mem ! i = Some v)"
      using w memory_init_inj [of i v j w] by auto
  qed
  also have "length (filter (\<lambda>j. i = j \<and> mem ! i = Some v) ?idx) =
             (if mem ! i = Some v then count_list ?idx i else 0)"
    by (simp add: count_list_eq_length_filter)
  also have "\<dots> = (if i < length mem \<and> mem ! i = Some v then 1 else 0)"
    by (simp add: distinct_count_list)
  finally show ?thesis .
qed

text \<open>
  Claim C8. Read line by line, the emitted program is the fixed head, then the statement
  \<^verbatim>\<open>memory[i] = v;\<close> for every slot \<open>i\<close> of the memory that holds a value \<open>v\<close>, in
  increasing order of \<open>i\<close>, then the fixed interpreter. Hence the statement for \<open>i\<close> and
  \<open>v\<close> occurs exactly once when slot \<open>i\<close> holds \<open>v\<close>, and not at all otherwise: a slot
  that holds \<^verbatim>\<open>None\<close> gets no statement, and the fixed lines contain none.
\<close>

theorem memory_initializers:
  "text_lines (generate_c_code self) =
     c_code_head @
     map (\<lambda>i. memory_init i (the (memory self ! i)))
       (filter (\<lambda>i. memory self ! i \<noteq> None) [0..<length (memory self)]) @
     c_code_tail \<and>
   (\<forall>i v. count_list (text_lines (generate_c_code self)) (memory_init i v) =
      (if i < length (memory self) \<and> memory self ! i = Some v then 1 else 0))"
proof -
  let ?inits = "map (\<lambda>i. memory_init i (the (memory self ! i)))
       (filter (\<lambda>i. memory self ! i \<noteq> None) [0..<length (memory self)])"
  let ?all = "c_code_head @ ?inits @ c_code_tail"
  have g: "generate_c_code self = join_newline ?all"
    by (simp add: generate_c_code_def init_memory_loop_eq)
  have ne: "?all \<noteq> []"
    by (simp add: c_code_head_def)
  have nl: "\<forall>x\<in>set ?all. CHR 0x0A \<notin> set x"
    using fixed_lines memory_init_no_newline by auto
  have t: "text_lines (generate_c_code self) = ?all"
    unfolding g by (rule text_lines_join [OF ne nl])
  have c: "count_list ?all (memory_init i v) =
      (if i < length (memory self) \<and> memory self ! i = Some v then 1 else 0)" for i v
  proof -
    have "memory_init i v \<notin> set c_code_head" "memory_init i v \<notin> set c_code_tail"
      using memory_init_not_fixed [of i v] by auto
    then show ?thesis
      using count_initializers [of "memory self" i v] by simp
  qed
  show ?thesis using t c by simp
qed

subsection \<open>Runs of instructions without operand\<close>

lemma parse_line_HLT: "parse_line ''HLT'' k = (None, Some ''HLT'', None)"
proof -
  have "parse_line ''HLT'' 0 = (None, Some ''HLT'', None)" by code_simp
  then show ?thesis using parse_line_number [of "''HLT''" k] by simp
qed

lemma has_mnemonic_HLT: "has_mnemonic ''HLT''"
  by (simp add: has_mnemonic_def parse_line_HLT)

lemma mnemonic_lines_replicate:
  "mnemonic_lines (replicate k l) = (if has_mnemonic l then k else 0)"
  by (induction k) simp_all

lemma first_pass_line_HLT: "first_pass_line self a n ''HLT'' = Inr (self, a + 1)"
  by (simp add: first_pass_line_def parse_line_HLT)

lemma first_pass_loop_HLT:
  "first_pass_loop self a n (replicate k ''HLT'') = Inr (self, a + k)"
  by (induction k arbitrary: a n) (simp_all add: first_pass_line_HLT)

lemma assemble_line_HLT:
  "assemble_line self mc a n ''HLT'' = store_word self mc a 0 ''000''"
proof -
  have i: "py_int ''000'' 10 = Some 0" by code_simp
  show ?thesis
    by (simp add: assemble_line_def parse_line_HLT INSTRUCTIONS_get_simps i)
qed

lemma assemble_loop_HLT:
  assumes "a + k \<le> length (memory self)"
  shows "\<exists>self' mc'. assemble_loop self mc a n (replicate k ''HLT'') = Inr (self', mc', a + k)"
  using assms
proof (induction k arbitrary: self mc a n)
  case 0
  show ?case by simp
next
  case (Suc k)
  let ?s = "self\<lparr>memory := (memory self)[a := Some 0]\<rparr>"
  let ?m = "mc @ [zfill 2 (str_nat a) @ '': '' @ ''000'']"
  have st: "assemble_line self mc a n ''HLT'' = Inr (?s, ?m, a + 1)"
    using Suc.prems by (simp add: assemble_line_HLT store_word_eq)
  have "(a + 1) + k \<le> length (memory ?s)" using Suc.prems by simp
  from Suc.IH [OF this, of ?m "n + 1"] show ?case
    using st by simp
qed

subsection \<open>A label beyond the memory\<close>

lemma init_simps:
  "memory_size (init k) = k" "labels (init k) = Map.empty" "length (memory (init k)) = k"
  by (simp_all add: init_def)

lemma first_pass_label_beyond:
  "first_pass (init 100) label_beyond = Inr ((init 100)\<lparr>labels := [''end'' \<mapsto> 100]\<rparr>)"
proof -
  have p1: "parse_line ''BRA end'' k = (None, Some ''BRA'', Some ''end'')" for k
  proof -
    have "parse_line ''BRA end'' 0 = (None, Some ''BRA'', Some ''end'')" by code_simp
    then show ?thesis using parse_line_number [of "''BRA end''" k] by simp
  qed
  have p2: "parse_line ''end:'' k = (Some ''end'', None, None)" for k
  proof -
    have "parse_line ''end:'' 0 = (Some ''end'', None, None)" by code_simp
    then show ?thesis using parse_line_number [of "''end:''" k] by simp
  qed
  have s1: "first_pass_line (init 100) 0 0 ''BRA end'' = Inr (init 100, 1)"
    by (simp add: first_pass_line_def p1)
  have s2: "first_pass_loop (init 100) 1 1 (replicate 99 ''HLT'') = Inr (init 100, 100)"
    using first_pass_loop_HLT [of "init 100" 1 1 99] by simp
  have s3: "first_pass_line (init 100) 100 100 ''end:'' =
              Inr ((init 100)\<lparr>labels := [''end'' \<mapsto> 100]\<rparr>, 100)"
    by (simp add: first_pass_line_def p2 init_simps)
  have "first_pass_loop (init 100) 0 0 label_beyond =
          Inr ((init 100)\<lparr>labels := [''end'' \<mapsto> 100]\<rparr>, 100)"
    unfolding label_beyond_def
    using s1 s2 s3 by (simp add: first_pass_loop_append)
  then show ?thesis by (simp add: first_pass_def)
qed

text \<open>
  Claim C3. The range check of pass 2 covers the literal operand only. In the program
  \<open>label_beyond\<close> the label \<^verbatim>\<open>end\<close> stands after a hundred instructions, so pass 1 binds
  it to the address 100; the translation succeeds, and the jump of the first line is
  stored as the word 6100, made from an address outside 0 to 99, without any
  \<^verbatim>\<open>OperandRangeError\<close>.
\<close>

theorem label_address_unchecked:
  "\<not> isl (assemble (init 100) label_beyond) \<and>
   labels (snd (projr (assemble (init 100) label_beyond))) ''end'' = Some 100 \<and>
   memory (snd (projr (assemble (init 100) label_beyond))) ! 0 = Some 6100"
proof -
  let ?s1 = "(init 100)\<lparr>labels := [''end'' \<mapsto> 100]\<rparr>"
  let ?s2 = "?s1\<lparr>memory := (memory ?s1)[0 := Some 6100]\<rparr>"
  have p1: "parse_line ''BRA end'' (0 + 1) = (None, Some ''BRA'', Some ''end'')"
    by code_simp
  have m: "''BRA'' = ''ADD'' \<or> ''BRA'' = ''SUB'' \<or> ''BRA'' = ''STA'' \<or> ''BRA'' = ''MUL'' \<or>
           ''BRA'' = ''LDA'' \<or> ''BRA'' = ''BRA'' \<or> ''BRA'' = ''BRZ'' \<or> ''BRA'' = ''BRP''"
    by simp
  let ?mc = "[zfill 2 (str_nat 0) @ '': '' @ zfill 3 (py_str 6100)]"
  have e: "py_int (the (INSTRUCTIONS_get ''BRA'') @ zfill 2 (py_str 100)) 10 = Some 6100"
    by code_simp
  have l1: "assemble_line ?s1 [] 0 0 ''BRA end'' = Inr (?s2, ?mc, 1)"
    using assemble_line_resolution [OF p1 m, of ?s1 "[]" 0] e
    by (simp add: store_word_eq init_simps)
  obtain s3 mc3 where l2:
    "assemble_loop ?s2 ?mc 1 1 (replicate 99 ''HLT'') = Inr (s3, mc3, 1 + 99)"
  proof -
    have "1 + 99 \<le> length (memory ?s2)" by (simp add: init_simps)
    from assemble_loop_HLT [OF this, of "?mc" 1] show ?thesis
      using that by blast
  qed
  have nm: "\<not> has_mnemonic ''end:''" by code_simp
  have l3: "assemble_line s3 mc3 100 100 ''end:'' = Inr (s3, mc3, 100)"
    by (rule assemble_line_skip [OF nm])
  have loop: "assemble_loop ?s1 [] 0 0 label_beyond = Inr (s3, mc3, 100)"
    unfolding label_beyond_def
    using l1 l2 l3 by (simp add: assemble_loop_append)
  have a: "assemble (init 100) label_beyond = Inr ((mc3, generate_c_code s3), s3)"
    by (simp add: assemble_def first_pass_label_beyond loop)
  have k: "labels s3 = labels ?s2" "memory s3 ! 0 = memory ?s2 ! 0"
    using assemble_loop_Inr [OF l2] by simp_all
  show ?thesis
    unfolding a using k by (simp add: init_simps)
qed

subsection \<open>More instructions than the memory has slots\<close>

lemma first_pass_line_error:
  assumes "first_pass_line self a n line = Inl e"
  shows "e = DuplicateLabelError (n + 1)"
proof -
  obtain l i opd where p: "parse_line line (n + 1) = (l, i, opd)"
    by (cases "parse_line line (n + 1)") auto
  show ?thesis
    using assms unfolding first_pass_line_def p
    by (simp split: if_splits)
qed

lemma first_pass_only_duplicates:
  "first_pass_loop self a n lines = Inl e \<Longrightarrow> \<exists>k. e = DuplicateLabelError k"
proof (induction lines arbitrary: self a n)
  case Nil
  then show ?case by simp
next
  case (Cons line rest)
  show ?case
  proof (cases "first_pass_line self a n line")
    case (Inl e')
    then have "e' = e" using Cons.prems by simp
    then show ?thesis using first_pass_line_error [OF Inl] by blast
  next
    case (Inr r)
    obtain s1 a1 where r: "r = (s1, a1)" by (cases r) auto
    have "first_pass_loop s1 a1 (n + 1) rest = Inl e"
      using Cons.prems Inr r by simp
    then show ?thesis by (rule Cons.IH)
  qed
qed

lemma first_pass_line_labels_only:
  assumes "first_pass_line self a n line = Inr (s', a')" and "labels t = labels self"
  shows "first_pass_line t a n line = Inr (t\<lparr>labels := labels s'\<rparr>, a')"
proof -
  obtain l i opd where p: "parse_line line (n + 1) = (l, i, opd)"
    by (cases "parse_line line (n + 1)") auto
  have "labels s' = (if truthy l then (labels self)(the l \<mapsto> a) else labels self) \<and>
        (truthy l \<longrightarrow> the l \<notin> dom (labels self)) \<and>
        a' = (if truthy i then a + 1 else a)"
    using assms(1) unfolding first_pass_line_def p
    by (simp split: if_splits) auto
  then show ?thesis
    using assms(2) unfolding first_pass_line_def p
    by (cases "truthy l"; cases "truthy i") auto
qed

lemma first_pass_loop_labels_only:
  assumes "first_pass_loop self a n lines = Inr (s', a')" and "labels t = labels self"
  shows "first_pass_loop t a n lines = Inr (t\<lparr>labels := labels s'\<rparr>, a')"
  using assms
proof (induction lines arbitrary: self t a n)
  case Nil
  then show ?case by simp
next
  case (Cons line rest)
  then obtain s1 a1 where s: "first_pass_line self a n line = Inr (s1, a1)"
    and r: "first_pass_loop s1 a1 (n + 1) rest = Inr (s', a')"
    by (auto split: sum.splits)
  have "first_pass_line t a n line = Inr (t\<lparr>labels := labels s1\<rparr>, a1)"
    by (rule first_pass_line_labels_only [OF s Cons.prems(2)])
  moreover have "first_pass_loop (t\<lparr>labels := labels s1\<rparr>) a1 (n + 1) rest =
      Inr (t\<lparr>labels := labels s1\<rparr>\<lparr>labels := labels s'\<rparr>, a')"
    by (rule Cons.IH [OF r]) simp
  ultimately show ?case by simp
qed

lemma resolve_operand_labels_only:
  "labels t = labels self \<Longrightarrow> resolve_operand t tk n = resolve_operand self tk n"
  by (simp add: resolve_operand_def)

text \<open>
  A line that is encoded with one table is encoded to the same word with every object
  that has the same table, whatever its memory.
\<close>

lemma assemble_line_word:
  assumes "assemble_line self mc a n line = Inr r" and "has_mnemonic line"
  shows "\<exists>w wt. \<forall>t mc' a'. labels t = labels self \<longrightarrow>
           assemble_line t mc' a' n line = store_word t mc' a' w wt"
proof -
  obtain l i opd where p: "parse_line line (n + 1) = (l, i, opd)"
    by (cases "parse_line line (n + 1)") auto
  have "parse_line line 0 = (l, i, opd)"
    using p parse_line_number [of line "n + 1"] by simp
  then have "truthy i"
    using assms(2) by (simp add: has_mnemonic_def)
  then obtain m where i: "i = Some m" and m: "m \<noteq> []"
    by (cases i) auto
  show ?thesis
  proof (cases "m = ''DAT''")
    case True
    obtain v where v: "(case opd of None \<Rightarrow> Inr 0 | Some x \<Rightarrow> parse_operand x (n + 1)) = Inr v"
      and rg: "- 999 \<le> v \<and> v \<le> 999"
      using assms(1) unfolding assemble_line_def p i True
      by (simp split: sum.splits if_splits)
    have "assemble_line t mc' a' n line = store_word t mc' a' v (zfill 3 (py_str v))"
      for t mc' a'
      unfolding assemble_line_def p i True using v rg by simp
    then show ?thesis by blast
  next
    case False
    obtain opcode where oc: "INSTRUCTIONS_get m = Some opcode"
      using assms(1) False m unfolding assemble_line_def p i
      by (simp split: option.splits)
    show ?thesis
    proof (cases "m \<in> set [''INP'', ''OUT'', ''HLT'']")
      case True
      obtain w where w: "py_int opcode 10 = Some w"
        using assms(1) False m True unfolding assemble_line_def p i
        by (simp add: oc split: option.splits)
      have "assemble_line t mc' a' n line = store_word t mc' a' w opcode" for t mc' a'
        unfolding assemble_line_def p i using False m True oc w by simp
      then show ?thesis by blast
    next
      case nf: False
      note eq = assemble_line_operand [OF p [unfolded i] oc False nf m]
      obtain tk where tk: "opd = Some tk"
        using assms(1) unfolding eq by (simp split: option.splits)
      obtain ad where ad: "resolve_operand self tk n = Inr ad"
        using assms(1) unfolding eq tk by (simp split: sum.splits)
      obtain w where w: "py_int (opcode @ zfill 2 (py_str ad)) 10 = Some w"
        using assms(1) unfolding eq tk by (simp add: ad split: option.splits)
      have "assemble_line t mc' a' n line = store_word t mc' a' w (zfill 3 (py_str w))"
        if "labels t = labels self" for t mc' a'
        unfolding eq tk using resolve_operand_labels_only [OF that, of tk n] ad w by simp
      then show ?thesis by blast
    qed
  qed
qed

lemma assemble_loop_bound:
  assumes "assemble_loop self mc a n lines = Inr (s', mc', a')"
      and "0 < mnemonic_lines lines"
  shows "a' \<le> length (memory self)"
  using assms
proof (induction lines arbitrary: self mc a n)
  case Nil
  then show ?case by simp
next
  case (Cons line rest)
  then obtain s1 m1 a1 where s: "assemble_line self mc a n line = Inr (s1, m1, a1)"
    and r: "assemble_loop s1 m1 a1 (n + 1) rest = Inr (s', mc', a')"
    by (auto split: sum.splits)
  note st = assemble_line_Inr [OF s]
  show ?case
  proof (cases "0 < mnemonic_lines rest")
    case True
    then show ?thesis using Cons.IH [OF r] st(4) by simp
  next
    case False
    then have hm: "has_mnemonic line" using Cons.prems(2) by (simp split: if_splits)
    obtain w wt where "store_word self mc a w wt = Inr (s1, m1, a1)"
      using assemble_line_store [OF s hm] by blast
    then have "a < length (memory self)" "a1 = a + 1"
      using store_word_Inr by fastforce+
    moreover have "a' = a1" using assemble_loop_Inr [OF r] False by simp
    ultimately show ?thesis by simp
  qed
qed

lemma assemble_loop_overflow:
  assumes "assemble_loop self mc a n lines = Inr (s', mc', a')"
      and "labels t = labels self"
      and "length (memory t) < a + mnemonic_lines lines"
      and "a \<le> length (memory t)"
  shows "assemble_loop t mc a n lines = Inl IndexError"
  using assms
proof (induction lines arbitrary: self t mc a n)
  case Nil
  then show ?case by simp
next
  case (Cons line rest)
  then obtain s1 m1 a1 where s: "assemble_line self mc a n line = Inr (s1, m1, a1)"
    and r: "assemble_loop s1 m1 a1 (n + 1) rest = Inr (s', mc', a')"
    by (auto split: sum.splits)
  note st = assemble_line_Inr [OF s]
  show ?case
  proof (cases "has_mnemonic line")
    case False
    have e: "s1 = self" "m1 = mc" "a1 = a"
      using s assemble_line_skip [OF False, of self mc a n] by simp_all
    have "assemble_loop t mc a (n + 1) rest = Inl IndexError"
      using Cons.IH [OF r [unfolded e] Cons.prems(2)] Cons.prems(3,4) False by simp
    then show ?thesis using assemble_line_skip [OF False, of t mc a n] by simp
  next
    case True
    obtain w wt where w: "\<forall>t mc' a'. labels t = labels self \<longrightarrow>
           assemble_line t mc' a' n line = store_word t mc' a' w wt"
      using assemble_line_word [OF s True] by blast
    have ws: "store_word self mc a w wt = Inr (s1, m1, a1)" using w s by simp
    have wt: "assemble_line t mc a n line = store_word t mc a w wt"
      using w Cons.prems(2) by simp
    show ?thesis
    proof (cases "a < length (memory t)")
      case False
      then show ?thesis using wt by (simp add: store_word_eq)
    next
      case lt: True
      let ?t1 = "t\<lparr>memory := (memory t)[a := Some w]\<rparr>"
      have m1: "m1 = mc @ [zfill 2 (str_nat a) @ '': '' @ wt]" and a1: "a1 = a + 1"
        using store_word_Inr [OF ws] by simp_all
      have t1: "assemble_line t mc a n line = Inr (?t1, m1, a1)"
        using wt lt m1 a1 by (simp add: store_word_eq)
      have "assemble_loop ?t1 m1 a1 (n + 1) rest = Inl IndexError"
      proof (rule Cons.IH [OF r])
        show "labels ?t1 = labels s1" using st(2) Cons.prems(2) by simp
        show "length (memory ?t1) < a1 + mnemonic_lines rest"
          using Cons.prems(3) True a1 by simp
        show "a1 \<le> length (memory ?t1)" using lt a1 by simp
      qed
      then show ?thesis using t1 by simp
    qed
  qed
qed

text \<open>
  Claim C9, as amended. Let a source have more lines with a mnemonic than the memory has
  slots (more than 100 for the default size). Pass 1 has no check of the address: the
  only error it can raise is \<^verbatim>\<open>DuplicateLabelError\<close>. The translation never succeeds.
  And when the source has no other fault, that is, when it would be translated with a
  memory that is large enough, pass 2 fails with \<^verbatim>\<open>IndexError\<close>, which is not an
  \<^verbatim>\<open>AssemblyError\<close>: the store of the first word beyond the list raises it.
\<close>

theorem capacity_overflow:
  assumes "msize < mnemonic_lines lines"
  shows "(\<forall>e. first_pass (init msize) lines = Inl e \<longrightarrow> (\<exists>k. e = DuplicateLabelError k)) \<and>
         isl (assemble (init msize) lines) \<and>
         ((\<exists>big. \<not> isl (assemble (init big) lines)) \<longrightarrow>
            assemble (init msize) lines = Inl IndexError)"
proof (intro conjI allI impI)
  fix e assume "first_pass (init msize) lines = Inl e"
  then have "first_pass_loop (init msize) 0 0 lines = Inl e"
    by (auto simp: first_pass_def split: sum.splits)
  then show "\<exists>k. e = DuplicateLabelError k"
    by (rule first_pass_only_duplicates)
next
  show "isl (assemble (init msize) lines)"
  proof (rule ccontr)
    assume "\<not> isl (assemble (init msize) lines)"
    then obtain out s' where a: "assemble (init msize) lines = Inr (out, s')"
      by (cases "assemble (init msize) lines") auto
    then obtain s0 a0 where f: "first_pass_loop (init msize) 0 0 lines = Inr (s0, a0)"
      by (auto simp: assemble_def first_pass_def split: sum.splits)
    then have f': "first_pass (init msize) lines = Inr s0"
      by (simp add: first_pass_def)
    obtain mc a' where l: "assemble_loop s0 [] 0 0 lines = Inr (s', mc, a')"
      using a unfolding assemble_def f' by (auto split: sum.splits)
    have "a' = mnemonic_lines lines" using assemble_loop_Inr [OF l] by simp
    moreover have "a' \<le> length (memory s0)"
      using assemble_loop_bound [OF l] assms by simp
    moreover have "length (memory s0) = msize"
      using first_pass_loop_Inr(2) [OF f] by (simp add: init_simps)
    ultimately show False using assms by simp
  qed
next
  assume "\<exists>big. \<not> isl (assemble (init big) lines)"
  then obtain big out s' where a: "assemble (init big) lines = Inr (out, s')"
    by (metis isl_def old.prod.exhaust sum.exhaust_sel)
  then obtain sA aA where f: "first_pass_loop (init big) 0 0 lines = Inr (sA, aA)"
    by (auto simp: assemble_def first_pass_def split: sum.splits)
  then have f': "first_pass (init big) lines = Inr sA"
    by (simp add: first_pass_def)
  obtain mc a' where l: "assemble_loop sA [] 0 0 lines = Inr (s', mc, a')"
    using a unfolding assemble_def f' by (auto split: sum.splits)
  let ?t = "(init msize)\<lparr>labels := labels sA\<rparr>"
  have "first_pass_loop (init msize) 0 0 lines = Inr (?t, aA)"
    by (rule first_pass_loop_labels_only [OF f]) (simp add: init_simps)
  then have g: "first_pass (init msize) lines = Inr ?t"
    by (simp add: first_pass_def)
  have "assemble_loop ?t [] 0 0 lines = Inl IndexError"
  proof (rule assemble_loop_overflow [OF l])
    show "labels ?t = labels sA" by simp
    show "length (memory ?t) < 0 + mnemonic_lines lines"
      using assms by (simp add: init_simps)
    show "0 \<le> length (memory ?t)" by simp
  qed
  then show "assemble (init msize) lines = Inl IndexError"
    by (simp add: assemble_def g)
qed

theorem capacity_overflow_witness:
  "100 < mnemonic_lines one_too_many \<and>
   \<not> isl (assemble (init 101) one_too_many) \<and>
   isl (assemble (init 100) one_too_many) \<and>
   assemble (init 100) one_too_many = Inl IndexError"
proof -
  have m: "100 < mnemonic_lines one_too_many"
    by (simp add: one_too_many_def mnemonic_lines_replicate has_mnemonic_HLT)
  have f: "first_pass (init 101) one_too_many = Inr (init 101)"
    by (simp add: first_pass_def one_too_many_def first_pass_loop_HLT)
  have "0 + 101 \<le> length (memory (init 101))"
    by (simp add: init_simps)
  from assemble_loop_HLT [OF this, of "[]" 0]
  obtain s mc where "assemble_loop (init 101) [] 0 0 one_too_many = Inr (s, mc, 0 + 101)"
    unfolding one_too_many_def by blast
  then have ok: "\<not> isl (assemble (init 101) one_too_many)"
    by (simp add: assemble_def f)
  then have "\<exists>big. \<not> isl (assemble (init big) one_too_many)"
    by blast
  then show ?thesis
    using capacity_overflow [OF m] m ok by blast
qed

text \<open>
  Claim C9 as it was stated fails: a source with 101 instructions whose first two lines
  define the same label is stopped by pass 1 with \<^verbatim>\<open>DuplicateLabelError\<close> on line 2.
\<close>

theorem duplicate_label_in_long_source:
  "100 < mnemonic_lines twice_labelled \<and>
   first_pass (init 100) twice_labelled = Inl (DuplicateLabelError 2)"
proof -
  have p: "parse_line ''a: HLT'' k = (Some ''a'', Some ''HLT'', None)" for k
  proof -
    have "parse_line ''a: HLT'' 0 = (Some ''a'', Some ''HLT'', None)" by code_simp
    then show ?thesis using parse_line_number [of "''a: HLT''" k] by simp
  qed
  have h: "has_mnemonic ''a: HLT''"
    by (simp add: has_mnemonic_def p)
  have m: "100 < mnemonic_lines twice_labelled"
    by (simp add: twice_labelled_def mnemonic_lines_replicate has_mnemonic_HLT h)
  let ?s = "(init 100)\<lparr>labels := [''a'' \<mapsto> 0]\<rparr>"
  have s1: "first_pass_line (init 100) 0 0 ''a: HLT'' = Inr (?s, 1)"
    by (simp add: first_pass_line_def p init_simps)
  have s2: "first_pass_line ?s 1 1 ''a: HLT'' = Inl (DuplicateLabelError 2)"
    by (simp add: first_pass_line_def p)
  have "first_pass_loop (init 100) 0 0 twice_labelled = Inl (DuplicateLabelError 2)"
    unfolding twice_labelled_def using s1 s2 by simp
  then show ?thesis using m by (simp add: first_pass_def)
qed

end
